theory Spec2Isabelle
  imports Complex_Main
begin

section \<open>Strings, numbers and maps of the host language\<close>

text \<open>
  The application (\<^verbatim>\<open>src/src/App.tsx\<close>) is a React component.  Its state hooks become
  the fields of one record, every handler becomes a function from the state (and the
  data the environment supplies: the parsed CSV rows, the answers of the dictionary
  service, the fresh paragraph identifier) to the next state.

  Strings are lists of characters and the development is about ASCII text: the
  white space of \<^verbatim>\<open>trim\<close> and of the regular expression class \<^verbatim>\<open>\s\<close> is tab, line feed,
  vertical tab, form feed, carriage return and space, \<^verbatim>\<open>toLowerCase\<close> maps \<^verbatim>\<open>A-Z\<close> to
  \<^verbatim>\<open>a-z\<close>, \<^verbatim>\<open>\w\<close> is \<^verbatim>\<open>[A-Za-z0-9_]\<close> and \<^verbatim>\<open>\d\<close> is \<^verbatim>\<open>[0-9]\<close>.
\<close>

definition isWhiteSpace :: "char \<Rightarrow> bool" where
  "isWhiteSpace c = (c \<in> set [CHR 0x09, CHR 0x0A, CHR 0x0B, CHR 0x0C, CHR 0x0D, CHR '' ''])"

definition isDigit :: "char \<Rightarrow> bool" where
  "isDigit c = (c \<in> set ''0123456789'')"

definition isWordChar :: "char \<Rightarrow> bool" where
  "isWordChar c =
     (c \<in> set ''abcdefghijklmnopqrstuvwxyzABCDEFGHIJKLMNOPQRSTUVWXYZ0123456789_'')"

definition isQuote :: "char \<Rightarrow> bool" where
  "isQuote c = (c = CHR 0x22 \<or> c = CHR 0x27)"

definition toLowerChar :: "char \<Rightarrow> char" where
  "toLowerChar c =
     (case map_of (zip ''ABCDEFGHIJKLMNOPQRSTUVWXYZ'' ''abcdefghijklmnopqrstuvwxyz'') c of
        Some d \<Rightarrow> d
      | None \<Rightarrow> c)"

definition toLowerCase :: "string \<Rightarrow> string" where
  "toLowerCase s = map toLowerChar s"

definition trim :: "string \<Rightarrow> string" where
  "trim s = rev (dropWhile isWhiteSpace (rev (dropWhile isWhiteSpace s)))"

text \<open>
  \<^verbatim>\<open>s.replace(/^["']|["']$/g, '')\<close>: one quote character is removed at the start if
  there is one, and one at the end of what is left if there is one (the two matches of
  the global replacement cannot overlap).
\<close>

definition stripQuotes :: "string \<Rightarrow> string" where
  "stripQuotes s =
     (let t = (case s of [] \<Rightarrow> [] | c # cs \<Rightarrow> if isQuote c then cs else s)
      in if t \<noteq> [] \<and> isQuote (last t) then butlast t else t)"

text \<open>
  \<^verbatim>\<open>name.replace(/\.[^/.]+$/, "")\<close>: the file extension, a final dot followed by at
  least one character that is neither a dot nor a slash, is removed.
\<close>

definition removeExtension :: "string \<Rightarrow> string" where
  "removeExtension s =
     (let r = rev s;
          ext = takeWhile (\<lambda>c. c \<noteq> CHR ''.'' \<and> c \<noteq> CHR ''/'') r;
          rest = dropWhile (\<lambda>c. c \<noteq> CHR ''.'' \<and> c \<noteq> CHR ''/'') r
      in case rest of
           [] \<Rightarrow> s
         | c # front \<Rightarrow> if c = CHR ''.'' \<and> ext \<noteq> [] then rev front else s)"

subsection \<open>Numbers\<close>

text \<open>
  A number of the host language is a double.  The model keeps the exact value a numeric
  string denotes (its rounding to 64 bits is not modelled); what the code under study
  depends on is whether the conversion \<^verbatim>\<open>Number(s)\<close> yields \<^verbatim>\<open>NaN\<close>, and that does not
  depend on the rounding.  \<open>Number\<close> follows the grammar of numeric strings: optional
  white space around the literal, the empty string is zero, a decimal literal with
  optional sign, fraction and exponent, \<^verbatim>\<open>Infinity\<close>, and unsigned binary, octal and
  hexadecimal integers.
\<close>

datatype jsnum = NaN | PosInfinity | NegInfinity | Finite rat

definition isNaN :: "jsnum \<Rightarrow> bool" where
  "isNaN n = (n = NaN)"

definition digitValue :: "char \<Rightarrow> nat option" where
  "digitValue c =
     map_of (zip ''0123456789abcdef'' [0, 1, 2, 3, 4, 5, 6, 7, 8, 9, 10, 11, 12, 13, 14, 15])
       (toLowerChar c)"

fun digitsValue :: "nat \<Rightarrow> string \<Rightarrow> nat \<Rightarrow> nat option" where
  "digitsValue b [] acc = Some acc"
| "digitsValue b (c # cs) acc =
     (case digitValue c of
        None \<Rightarrow> None
      | Some d \<Rightarrow> if d < b then digitsValue b cs (acc * b + d) else None)"

definition integerLiteral :: "nat \<Rightarrow> string \<Rightarrow> jsnum" where
  "integerLiteral b ds =
     (if ds = [] then NaN
      else case digitsValue b ds 0 of None \<Rightarrow> NaN | Some n \<Rightarrow> Finite (of_nat n))"

definition ExponentPart :: "string \<Rightarrow> int option" where
  "ExponentPart s =
     (case s of
        [] \<Rightarrow> Some 0
      | c # r \<Rightarrow>
          if c = CHR ''e'' \<or> c = CHR ''E'' then
            (let neg = (r \<noteq> [] \<and> hd r = CHR ''-'');
                 ds = (if r \<noteq> [] \<and> (hd r = CHR ''-'' \<or> hd r = CHR ''+'') then tl r else r)
             in if ds = [] then None
                else case digitsValue 10 ds 0 of
                       None \<Rightarrow> None
                     | Some n \<Rightarrow> Some (if neg then - int n else int n))
          else None)"

definition StrUnsignedDecimalLiteral :: "string \<Rightarrow> jsnum" where
  "StrUnsignedDecimalLiteral s =
     (if s = ''Infinity'' then PosInfinity
      else
        let ip = takeWhile isDigit s;
            r1 = dropWhile isDigit s;
            hasDot = (r1 \<noteq> [] \<and> hd r1 = CHR ''.'');
            fp = (if hasDot then takeWhile isDigit (tl r1) else []);
            r2 = (if hasDot then dropWhile isDigit (tl r1) else r1)
        in if ip = [] \<and> fp = [] then NaN
           else case (digitsValue 10 (ip @ fp) 0, ExponentPart r2) of
                  (Some m, Some e) \<Rightarrow>
                    (let k = e - int (length fp)
                     in Finite (if 0 \<le> k then of_nat m * 10 ^ nat k
                                else of_nat m / 10 ^ nat (- k)))
                | _ \<Rightarrow> NaN)"

definition negate :: "jsnum \<Rightarrow> jsnum" where
  "negate n =
     (case n of
        NaN \<Rightarrow> NaN
      | PosInfinity \<Rightarrow> NegInfinity
      | NegInfinity \<Rightarrow> PosInfinity
      | Finite q \<Rightarrow> Finite (- q))"

definition Number :: "string \<Rightarrow> jsnum" where
  "Number s =
     (let t = trim s in
      case t of
        [] \<Rightarrow> Finite 0
      | c # r \<Rightarrow>
          if c = CHR ''0'' \<and> r \<noteq> [] \<and> toLowerChar (hd r) = CHR ''x'' then integerLiteral 16 (tl r)
          else if c = CHR ''0'' \<and> r \<noteq> [] \<and> toLowerChar (hd r) = CHR ''o'' then integerLiteral 8 (tl r)
          else if c = CHR ''0'' \<and> r \<noteq> [] \<and> toLowerChar (hd r) = CHR ''b'' then integerLiteral 2 (tl r)
          else if c = CHR ''-'' then negate (StrUnsignedDecimalLiteral r)
          else if c = CHR ''+'' then StrUnsignedDecimalLiteral r
          else StrUnsignedDecimalLiteral t)"

subsection \<open>Insertion-ordered maps\<close>

text \<open>
  A \<^verbatim>\<open>Map\<close> of the host language keeps its keys in insertion order; \<^verbatim>\<open>set\<close> on a key
  that is present replaces the value in place, \<^verbatim>\<open>size\<close> is the number of keys.
\<close>

type_synonym ('k, 'v) jsmap = "('k \<times> 'v) list"

fun Map_set :: "('k, 'v) jsmap \<Rightarrow> 'k \<Rightarrow> 'v \<Rightarrow> ('k, 'v) jsmap" where
  "Map_set [] k v = [(k, v)]"
| "Map_set ((k', v') # m) k v =
     (if k' = k then (k, v) # m else (k', v') # Map_set m k v)"

definition Map_get :: "('k, 'v) jsmap \<Rightarrow> 'k \<Rightarrow> 'v option" where
  "Map_get m k = map_of m k"

definition Map_has :: "('k, 'v) jsmap \<Rightarrow> 'k \<Rightarrow> bool" where
  "Map_has m k = (k \<in> set (map fst m))"

definition Map_size :: "('k, 'v) jsmap \<Rightarrow> nat" where
  "Map_size m = length m"

section \<open>Data model\<close>

text \<open>
  \<^verbatim>\<open>interface WordEmbedding { word; x; y; pos? }\<close> and
  \<^verbatim>\<open>interface Model { name; embeddings: Map<string, WordEmbedding> }\<close>.  The optional
  field \<^verbatim>\<open>pos\<close> is an option; parts of speech are the strings the code uses.
\<close>

record WordEmbedding =
  we_word :: string
  we_x :: jsnum
  we_y :: jsnum
  we_pos :: "string option"

record Model =
  model_name :: string
  embeddings :: "(string, WordEmbedding) jsmap"

record Paragraph =
  para_id :: string
  para_text :: string
  para_words :: "string list"

text \<open>
  The messages shown to the user.  The code keeps them as texts in the two state
  variables \<^verbatim>\<open>error\<close> and \<^verbatim>\<open>success\<close>; the model keeps which message it is and the
  values it is built from:
  \<^item> \<open>NoNotice\<close>: the empty text;
  \<^item> \<open>EmptyModel\<close>: \<^verbatim>\<open>No valid embeddings found in file\<close>;
  \<^item> \<open>ParseFailed\<close>: \<^verbatim>\<open>Error parsing CSV file\<close>;
  \<^item> \<open>NoActiveModel\<close>: \<^verbatim>\<open>Please select a model first\<close>;
  \<^item> \<open>WordNotFound w\<close>: \<^verbatim>\<open>Word "w" not found in the model\<close>;
  \<^item> \<open>AlreadyHighlighted w\<close>: \<^verbatim>\<open>Word "w" is already visualized\<close>;
  \<^item> \<open>NoMatch\<close>: \<^verbatim>\<open>No words from the paragraph were found in the model\<close>;
  \<^item> \<open>NoNewWords\<close>: \<^verbatim>\<open>No new important words (...) found in the paragraph\<close>;
  \<^item> \<open>ModelLoaded n k\<close>: \<^verbatim>\<open>Model loaded with n words\<close>, followed by
    \<^verbatim>\<open>(k invalid entries skipped)\<close> when \<open>k\<close> is positive;
  \<^item> \<open>AddedWord w\<close>: \<^verbatim>\<open>Added the word "w" to visualization\<close>;
  \<^item> \<open>AddedFromParagraph n a b c d\<close>: \<^verbatim>\<open>Added n words from paragraph (...)\<close> with the
    numbers of nouns, verbs, adjectives and adverbs.
\<close>

datatype notice =
    NoNotice
  | EmptyModel
  | ParseFailed
  | NoActiveModel
  | WordNotFound string
  | AlreadyHighlighted string
  | NoMatch
  | NoNewWords
  | ModelLoaded nat nat
  | AddedWord string
  | AddedFromParagraph nat nat nat nat nat

text \<open>
  Values of the host language, as far as a parsed dictionary answer can hold them, and
  \<open>Undefined\<close> for what a missing property reads as.
\<close>

datatype js =
    Undefined
  | Null
  | JBool bool
  | JNum jsnum
  | JStr string
  | JArr "js list"
  | JObj "(string \<times> js) list"

text \<open>The state hooks of the component \<^verbatim>\<open>App\<close>.  \<open>activeModelIndex\<close> is \<open>-1\<close> for none;
  \<open>paragraphInput\<close> is the state variable \<^verbatim>\<open>paragraph\<close>.\<close>

record app_state =
  models :: "Model list"
  activeModelIndex :: int
  searchWord :: string
  highlightedWords :: "string list"
  error :: notice
  success :: notice
  isLoading :: bool
  wordMeanings :: "(string, js) jsmap"
  wordPos :: "(string, string) jsmap"
  paragraphInput :: string
  savedParagraphs :: "Paragraph list"
  activeParagraphId :: "string option"
  expandedParagraphId :: "string option"

datatype exn = TypeError

text \<open>
  \<^verbatim>\<open>models[i]\<close>: reading an array outside its bounds yields \<^verbatim>\<open>undefined\<close>, here \<open>None\<close>;
  a later property access on it raises \<open>TypeError\<close>.
\<close>

definition models_at :: "Model list \<Rightarrow> int \<Rightarrow> Model option" where
  "models_at ms i = (if 0 \<le> i \<and> i < int (length ms) then Some (ms ! nat i) else None)"

section \<open>Loading a model\<close>

text \<open>
  The callback of \<^verbatim>\<open>results.data.forEach\<close> in \<open>handleFileUpload\<close>, on the pair of the map
  being built and \<^verbatim>\<open>invalidCount\<close>.  A row is the array of its cells as the CSV parser
  delivers it.
\<close>

definition processRow ::
  "(string, string) jsmap \<Rightarrow> (string, WordEmbedding) jsmap \<times> nat \<Rightarrow> string list
     \<Rightarrow> (string, WordEmbedding) jsmap \<times> nat" where
  "processRow wp acc row =
     (case acc of (embeddingsMap, invalidCount) \<Rightarrow>
        if length row < 3 then acc
        else
          let rawWord = trim (row ! 2);
              word = stripQuotes rawWord;
              xStr = trim (stripQuotes (row ! 0));
              yStr = trim (stripQuotes (row ! 1))
          in if word = [] \<or> word = ''.'' then acc
             else
               let x = Number xStr;
                   y = Number yStr
               in if isNaN x \<or> isNaN y then (embeddingsMap, invalidCount + 1)
                  else
                    let lowerWord = toLowerCase word;
                        pos = Map_get wp lowerWord
                    in (Map_set embeddingsMap lowerWord
                          \<lparr>we_word = word, we_x = x, we_y = y, we_pos = pos\<rparr>,
                        invalidCount))"

text \<open>The \<^verbatim>\<open>complete\<close> callback: the rows are folded from the empty map and count zero.\<close>

definition processRows ::
  "(string, string) jsmap \<Rightarrow> string list list \<Rightarrow> (string, WordEmbedding) jsmap \<times> nat" where
  "processRows wp rows = foldl (processRow wp) ([], 0) rows"

definition parseComplete :: "string \<Rightarrow> string list list \<Rightarrow> app_state \<Rightarrow> app_state" where
  "parseComplete fileName rows s =
     (case processRows (wordPos s) rows of (embeddingsMap, invalidCount) \<Rightarrow>
        if Map_size embeddingsMap = 0 then s\<lparr>error := EmptyModel, isLoading := False\<rparr>
        else
          let newModel = \<lparr>model_name = removeExtension fileName, embeddings = embeddingsMap\<rparr>
          in s\<lparr>models := models s @ [newModel],
                activeModelIndex := int (length (models s)),
                success := ModelLoaded (Map_size embeddingsMap) invalidCount,
                isLoading := False\<rparr>)"

text \<open>
  What the CSV parser hands back for a file: the rows, or a failure (the \<^verbatim>\<open>error\<close>
  callback).  \<open>handleFileUpload\<close> does nothing without a file.
\<close>

datatype papa_result = Complete "string list list" | Failed

definition handleFileUpload :: "(string \<times> papa_result) option \<Rightarrow> app_state \<Rightarrow> app_state" where
  "handleFileUpload file s =
     (case file of
        None \<Rightarrow> s
      | Some (fileName, parsed) \<Rightarrow>
          let s1 = s\<lparr>isLoading := True, error := NoNotice\<rparr>
          in (case parsed of
                Complete rows \<Rightarrow> parseComplete fileName rows s1
              | Failed \<Rightarrow> s1\<lparr>error := ParseFailed, isLoading := False\<rparr>))"

subsection \<open>The three kinds of rows\<close>

text \<open>
  The branches of \<open>processRow\<close>, named: a row is skipped (too short, or its cleaned word
  is empty or a single period), invalid (kept so far, but a coordinate does not parse) or
  valid (it is stored under its lower-cased word).
\<close>

definition rowWord :: "string list \<Rightarrow> string" where
  "rowWord row = stripQuotes (trim (row ! 2))"

definition rowX :: "string list \<Rightarrow> jsnum" where
  "rowX row = Number (trim (stripQuotes (row ! 0)))"

definition rowY :: "string list \<Rightarrow> jsnum" where
  "rowY row = Number (trim (stripQuotes (row ! 1)))"

definition skippedRow :: "string list \<Rightarrow> bool" where
  "skippedRow row = (length row < 3 \<or> rowWord row = [] \<or> rowWord row = ''.'')"

definition invalidRow :: "string list \<Rightarrow> bool" where
  "invalidRow row = (\<not> skippedRow row \<and> (isNaN (rowX row) \<or> isNaN (rowY row)))"

definition validRow :: "string list \<Rightarrow> bool" where
  "validRow row = (\<not> skippedRow row \<and> \<not> isNaN (rowX row) \<and> \<not> isNaN (rowY row))"

definition rowKey :: "string list \<Rightarrow> string" where
  "rowKey row = toLowerCase (rowWord row)"

definition rowEmbedding :: "(string, string) jsmap \<Rightarrow> string list \<Rightarrow> WordEmbedding" where
  "rowEmbedding wp row =
     \<lparr>we_word = rowWord row, we_x = rowX row, we_y = rowY row,
      we_pos = Map_get wp (rowKey row)\<rparr>"

text \<open>
  The rows the specification counts as invalid: those with an unparseable coordinate
  or with an empty or period-only word.
\<close>

definition specInvalidRow :: "string list \<Rightarrow> bool" where
  "specInvalidRow row =
     (3 \<le> length row \<and>
      (isNaN (rowX row) \<or> isNaN (rowY row) \<or> rowWord row = [] \<or> rowWord row = ''.''))"

text \<open>The initial values of the state hooks.\<close>

definition initialState :: app_state where
  "initialState =
     \<lparr>models = [], activeModelIndex = - 1, searchWord = [], highlightedWords = [],
      error = NoNotice, success = NoNotice, isLoading = False, wordMeanings = [],
      wordPos = [], paragraphInput = [], savedParagraphs = [],
      activeParagraphId = None, expandedParagraphId = None\<rparr>"

section \<open>The dictionary service\<close>

text \<open>
  Truthiness, and the two kinds of property access the code applies to a dictionary
  answer: \<^verbatim>\<open>v[0]\<close> and \<^verbatim>\<open>v.name\<close> for the names \<^verbatim>\<open>meanings\<close>, \<^verbatim>\<open>definitions\<close>,
  \<^verbatim>\<open>definition\<close> and \<^verbatim>\<open>partOfSpeech\<close>.  Reading a property of \<^verbatim>\<open>undefined\<close> or \<^verbatim>\<open>null\<close>
  raises \<open>TypeError\<close>; a property that is not there reads as \<^verbatim>\<open>undefined\<close>.
\<close>

definition truthy :: "js \<Rightarrow> bool" where
  "truthy v =
     (case v of
        Undefined \<Rightarrow> False
      | Null \<Rightarrow> False
      | JBool b \<Rightarrow> b
      | JNum n \<Rightarrow> n \<noteq> NaN \<and> n \<noteq> Finite 0
      | JStr s \<Rightarrow> s \<noteq> []
      | JArr xs \<Rightarrow> True
      | JObj kvs \<Rightarrow> True)"

definition lookupProp :: "(string \<times> js) list \<Rightarrow> string \<Rightarrow> js" where
  "lookupProp kvs k = (case map_of kvs k of None \<Rightarrow> Undefined | Some v \<Rightarrow> v)"

fun getIndex0 :: "js \<Rightarrow> exn + js" where
  "getIndex0 Undefined = Inl TypeError"
| "getIndex0 Null = Inl TypeError"
| "getIndex0 (JBool b) = Inr Undefined"
| "getIndex0 (JNum n) = Inr Undefined"
| "getIndex0 (JStr s) = Inr (case s of [] \<Rightarrow> Undefined | c # cs \<Rightarrow> JStr [c])"
| "getIndex0 (JArr xs) = Inr (case xs of [] \<Rightarrow> Undefined | x # ys \<Rightarrow> x)"
| "getIndex0 (JObj kvs) = Inr (lookupProp kvs ''0'')"

fun getProp :: "js \<Rightarrow> string \<Rightarrow> exn + js" where
  "getProp Undefined k = Inl TypeError"
| "getProp Null k = Inl TypeError"
| "getProp (JObj kvs) k = Inr (lookupProp kvs k)"
| "getProp v k = Inr Undefined"

definition bind_exn :: "exn + 'a \<Rightarrow> ('a \<Rightarrow> exn + 'b) \<Rightarrow> exn + 'b" where
  "bind_exn r f = (case r of Inl e \<Rightarrow> Inl e | Inr v \<Rightarrow> f v)"

text \<open>
  The outcome of \<^verbatim>\<open>fetch\<close> followed by \<^verbatim>\<open>response.json()\<close>: the promise is rejected (no
  network, or a body that is not JSON), or it resolves to the parsed value.  The
  service is a function from the requested word to the outcome.
\<close>

datatype fetch_result = Rejected | Resolved js

type_synonym dictionary = "string \<Rightarrow> fetch_result"

text \<open>
  The condition \<^verbatim>\<open>data && data[0] && data[0].meanings && data[0].meanings[0]\<close>, with the
  value of its last operand when it holds.
\<close>

definition firstMeaning :: "js \<Rightarrow> exn + js option" where
  "firstMeaning data =
     (if \<not> truthy data then Inr None
      else bind_exn (getIndex0 data) (\<lambda>d0.
        if \<not> truthy d0 then Inr None
        else bind_exn (getProp d0 ''meanings'') (\<lambda>ms.
          if \<not> truthy ms then Inr None
          else bind_exn (getIndex0 ms) (\<lambda>m0.
            if \<not> truthy m0 then Inr None else Inr (Some m0)))))"

text \<open>\<^verbatim>\<open>data[0].meanings[0].definitions[0].definition\<close>, from the first meaning.\<close>

definition firstDefinition :: "js \<Rightarrow> exn + js" where
  "firstDefinition m0 =
     bind_exn (getProp m0 ''definitions'') (\<lambda>ds.
       bind_exn (getIndex0 ds) (\<lambda>d. getProp d ''definition''))"

text \<open>The chain of strict comparisons that maps a tag to one of the five categories.\<close>

definition normalizePos :: "js \<Rightarrow> string" where
  "normalizePos partOfSpeech =
     (if partOfSpeech = JStr ''noun'' then ''noun''
      else if partOfSpeech = JStr ''verb'' then ''verb''
      else if partOfSpeech = JStr ''adjective'' then ''adjective''
      else if partOfSpeech = JStr ''adverb'' then ''adverb''
      else ''unknown'')"

text \<open>
  The part of speech an answer of the service stands for, read off the parsed value
  without the exceptions: a read from \<^verbatim>\<open>undefined\<close> or \<^verbatim>\<open>null\<close> is taken as
  \<^verbatim>\<open>undefined\<close>.  An answer classifies as the mapped tag of its first meaning when
  it has a first entry with a first meaning and the first element of that meaning's
  definitions is neither \<^verbatim>\<open>undefined\<close> nor \<^verbatim>\<open>null\<close>; every other answer, and a
  rejected request, classifies as \<open>unknown\<close>.
\<close>

definition nullish :: "js \<Rightarrow> bool" where
  "nullish v = (v = Undefined \<or> v = Null)"

fun at0 :: "js \<Rightarrow> js" where
  "at0 (JStr (c # cs)) = JStr [c]"
| "at0 (JArr (x # xs)) = x"
| "at0 (JObj kvs) = lookupProp kvs ''0''"
| "at0 v = Undefined"

fun field :: "js \<Rightarrow> string \<Rightarrow> js" where
  "field (JObj kvs) k = lookupProp kvs k"
| "field v k = Undefined"

definition classified :: "js \<Rightarrow> string" where
  "classified data =
     (let entry = at0 data;
          meanings = field entry ''meanings'';
          meaning = at0 meanings;
          definitions = field meaning ''definitions''
      in if truthy data \<and> truthy entry \<and> truthy meanings \<and> truthy meaning \<and>
            \<not> nullish definitions \<and> \<not> nullish (at0 definitions)
         then normalizePos (field meaning ''partOfSpeech'')
         else ''unknown'')"

definition classify :: "dictionary \<Rightarrow> string \<Rightarrow> string" where
  "classify dict word =
     (case dict word of Rejected \<Rightarrow> ''unknown'' | Resolved data \<Rightarrow> classified data)"

text \<open>
  \<open>getWordPosDirectly\<close>: the body of its \<^verbatim>\<open>try\<close> block, then the function.  An
  exception carries the state reached when it is raised.  The body yields \<open>None\<close> when
  the condition fails and control falls through to the final \<^verbatim>\<open>return 'unknown'\<close>.
\<close>

definition getWordPosDirectly_try ::
  "js \<Rightarrow> string \<Rightarrow> app_state \<Rightarrow> (exn \<times> app_state) + (string option \<times> app_state)" where
  "getWordPosDirectly_try data word s =
     (case firstMeaning data of
        Inl e \<Rightarrow> Inl (e, s)
      | Inr None \<Rightarrow> Inr (None, s)
      | Inr (Some m0) \<Rightarrow>
          (case firstDefinition m0 of
             Inl e \<Rightarrow> Inl (e, s)
           | Inr meaning \<Rightarrow>
               let s1 = s\<lparr>wordMeanings := Map_set (wordMeanings s) (toLowerCase word) meaning\<rparr>
               in (case getProp m0 ''partOfSpeech'' of
                     Inl e \<Rightarrow> Inl (e, s1)
                   | Inr partOfSpeech \<Rightarrow> Inr (Some (normalizePos partOfSpeech), s1))))"

definition getWordPosDirectly :: "dictionary \<Rightarrow> string \<Rightarrow> app_state \<Rightarrow> string \<times> app_state" where
  "getWordPosDirectly dict word s =
     (case dict word of
        Rejected \<Rightarrow> (''unknown'', s)
      | Resolved data \<Rightarrow>
          (case getWordPosDirectly_try data word s of
             Inl (e, s1) \<Rightarrow> (''unknown'', s1)
           | Inr (None, s1) \<Rightarrow> (''unknown'', s1)
           | Inr (Some p, s1) \<Rightarrow> (p, s1)))"

text \<open>
  The block that follows a classification in \<open>handleSearch\<close>, \<open>fetchWordData\<close> and
  \<open>processParagraphWords\<close>: the embedding of the word in the active model, if there is
  one, gets the part of speech.  \<^verbatim>\<open>updatedModels[activeModelIndex].embeddings\<close> raises
  when the index is outside the list.
\<close>

definition updateModelPos ::
  "int \<Rightarrow> string \<Rightarrow> string \<Rightarrow> app_state \<Rightarrow> (exn \<times> app_state) + app_state" where
  "updateModelPos i key p s =
     (case models_at (models s) i of
        None \<Rightarrow> Inl (TypeError, s)
      | Some m \<Rightarrow>
          (case Map_get (embeddings m) key of
             None \<Rightarrow> Inr s
           | Some embedding \<Rightarrow>
               Inr (s\<lparr>models := (models s)[nat i :=
                       m\<lparr>embeddings :=
                           Map_set (embeddings m) key (embedding\<lparr>we_pos := Some p\<rparr>)\<rparr>]\<rparr>)))"

text \<open>
  \<open>fetchWordData\<close>, the background fetch of the effect hook: the \<^verbatim>\<open>try\<close> block, then the
  function with its \<^verbatim>\<open>catch\<close>.
\<close>

definition fetchWordData_try ::
  "js \<Rightarrow> string \<Rightarrow> app_state \<Rightarrow> (exn \<times> app_state) + app_state" where
  "fetchWordData_try data word s =
     (case firstMeaning data of
        Inl e \<Rightarrow> Inl (e, s)
      | Inr None \<Rightarrow> Inr s
      | Inr (Some m0) \<Rightarrow>
          (case firstDefinition m0 of
             Inl e \<Rightarrow> Inl (e, s)
           | Inr meaning \<Rightarrow>
               let s1 = s\<lparr>wordMeanings := Map_set (wordMeanings s) (toLowerCase word) meaning\<rparr>
               in (case getProp m0 ''partOfSpeech'' of
                     Inl e \<Rightarrow> Inl (e, s1)
                   | Inr partOfSpeech \<Rightarrow>
                       let normalizedPos = normalizePos partOfSpeech;
                           s2 = s1\<lparr>wordPos :=
                                  Map_set (wordPos s1) (toLowerCase word) normalizedPos\<rparr>
                       in if activeModelIndex s \<noteq> - 1
                          then updateModelPos (activeModelIndex s) (toLowerCase word)
                                 normalizedPos s2
                          else Inr s2)))"

definition fetchWordData :: "dictionary \<Rightarrow> string \<Rightarrow> app_state \<Rightarrow> app_state" where
  "fetchWordData dict word s =
     (case dict word of
        Rejected \<Rightarrow> s\<lparr>wordPos := Map_set (wordPos s) (toLowerCase word) ''unknown''\<rparr>
      | Resolved data \<Rightarrow>
          (case fetchWordData_try data word s of
             Inl (e, s1) \<Rightarrow>
               s1\<lparr>wordPos := Map_set (wordPos s1) (toLowerCase word) ''unknown''\<rparr>
           | Inr s1 \<Rightarrow> s1))"

section \<open>Adding a word, switching the model, removing a paragraph\<close>

text \<open>
  The \<^verbatim>\<open>try\<close>/\<^verbatim>\<open>catch\<close> of \<open>handleSearch\<close> for a word without a cached part of speech.
\<close>

definition handleSearch_classify :: "dictionary \<Rightarrow> string \<Rightarrow> app_state \<Rightarrow> app_state" where
  "handleSearch_classify dict word s =
     (case getWordPosDirectly dict word s of (pos, s1) \<Rightarrow>
        let s2 = s1\<lparr>wordPos := Map_set (wordPos s1) (toLowerCase word) pos\<rparr>
        in (case updateModelPos (activeModelIndex s) word pos s2 of
              Inr s3 \<Rightarrow> s3
            | Inl (e, s3) \<Rightarrow>
                s3\<lparr>wordPos := Map_set (wordPos s3) (toLowerCase word) ''unknown''\<rparr>))"

definition handleSearch :: "dictionary \<Rightarrow> app_state \<Rightarrow> (exn \<times> app_state) + app_state" where
  "handleSearch dict s =
     (let word = toLowerCase (trim (searchWord s)) in
      if word = [] then Inr s
      else if activeModelIndex s = - 1
        then Inr (s\<lparr>error := NoActiveModel, success := NoNotice\<rparr>)
      else
        (case models_at (models s) (activeModelIndex s) of
           None \<Rightarrow> Inl (TypeError, s)
         | Some activeModel \<Rightarrow>
             if \<not> Map_has (embeddings activeModel) word
               then Inr (s\<lparr>error := WordNotFound word, success := NoNotice\<rparr>)
             else if word \<notin> set (highlightedWords s) then
               (let s1 = s\<lparr>isLoading := True\<rparr>;
                    s2 = (if \<not> Map_has (wordPos s) word
                          then handleSearch_classify dict word s1 else s1)
                in Inr (s2\<lparr>highlightedWords := highlightedWords s2 @ [word],
                           success := AddedWord word, error := NoNotice,
                           isLoading := False, searchWord := []\<rparr>))
             else Inr (s\<lparr>error := AlreadyHighlighted word, success := NoNotice,
                          searchWord := []\<rparr>)))"

text \<open>
  \<open>selectModel\<close>.  The loop over the entries of the cache writes each cached part of
  speech into the embedding of the same key, when the chosen model has one.
\<close>

definition applyCachedPos ::
  "(string, WordEmbedding) jsmap \<Rightarrow> string \<times> string \<Rightarrow> (string, WordEmbedding) jsmap" where
  "applyCachedPos m entry =
     (case entry of (word, pos) \<Rightarrow>
        (case Map_get m word of
           None \<Rightarrow> m
         | Some embedding \<Rightarrow> Map_set m word (embedding\<lparr>we_pos := Some pos\<rparr>)))"

definition selectModel :: "int \<Rightarrow> app_state \<Rightarrow> (exn \<times> app_state) + app_state" where
  "selectModel index s =
     (if index = activeModelIndex s then Inr s
      else
        (case models_at (models s) index of
           None \<Rightarrow> Inl (TypeError, s)
         | Some newModel \<Rightarrow>
             let updatedModels = (models s)[nat index :=
                   newModel\<lparr>embeddings :=
                     foldl applyCachedPos (embeddings newModel) (wordPos s)\<rparr>]
             in Inr (s\<lparr>models := updatedModels,
                        activeModelIndex := index,
                        highlightedWords :=
                          filter (\<lambda>word. Map_has (embeddings newModel) word)
                            (highlightedWords s),
                        error := NoNotice, success := NoNotice\<rparr>)))"

definition removeParagraph :: "string \<Rightarrow> app_state \<Rightarrow> app_state" where
  "removeParagraph paragraphId s =
     (case find (\<lambda>p. para_id p = paragraphId) (savedParagraphs s) of
        None \<Rightarrow> s
      | Some paragraphToRemove \<Rightarrow>
          s\<lparr>highlightedWords :=
               filter (\<lambda>word. word \<notin> set (para_words paragraphToRemove)) (highlightedWords s),
             savedParagraphs := filter (\<lambda>p. para_id p \<noteq> paragraphId) (savedParagraphs s),
             activeParagraphId :=
               (if activeParagraphId s = Some paragraphId then None else activeParagraphId s),
             expandedParagraphId :=
               (if expandedParagraphId s = Some paragraphId then None
                else expandedParagraphId s)\<rparr>)"

section \<open>Submitting a paragraph\<close>

subsection \<open>Extraction of the candidate words\<close>

text \<open>
  The chain of string operations of \<open>handleParagraphSubmit\<close>:
  \<^verbatim>\<open>.replace(/[^\w\s]|_/g, " ")\<close>, \<^verbatim>\<open>.replace(/\s+/g, " ")\<close>, \<^verbatim>\<open>.trim()\<close>,
  \<^verbatim>\<open>.split(" ")\<close> and the filter that keeps the non-empty words without a digit.
\<close>

definition replacePunctuation :: "string \<Rightarrow> string" where
  "replacePunctuation s =
     map (\<lambda>c. if (\<not> isWordChar c \<and> \<not> isWhiteSpace c) \<or> c = CHR ''_'' then CHR '' '' else c) s"

function collapseWhiteSpace :: "string \<Rightarrow> string" where
  "collapseWhiteSpace [] = []"
| "collapseWhiteSpace (c # cs) =
     (if isWhiteSpace c then CHR '' '' # collapseWhiteSpace (dropWhile isWhiteSpace cs)
      else c # collapseWhiteSpace cs)"
  by pat_completeness auto
termination
  by (relation "measure length") (auto simp: le_imp_less_Suc length_dropWhile_le)

text \<open>
  \<^verbatim>\<open>s.split(sep)\<close> for a separator of one character: the pieces between the
  separators, empty pieces included; the empty string has the one piece \<^verbatim>\<open>""\<close>.
\<close>

fun split :: "char \<Rightarrow> string \<Rightarrow> string list" where
  "split sep [] = [[]]"
| "split sep (c # cs) =
     (if c = sep then [] # split sep cs
      else (case split sep cs of
              [] \<Rightarrow> [[c]]
            | w # ws \<Rightarrow> (c # w) # ws))"

definition hasDigit :: "string \<Rightarrow> bool" where
  "hasDigit word = list_ex isDigit word"

definition extractWords :: "string \<Rightarrow> string list" where
  "extractWords paragraphText =
     filter (\<lambda>word. length word > 0 \<and> \<not> hasDigit word)
       (split (CHR '' '')
          (trim (collapseWhiteSpace (replacePunctuation (toLowerCase paragraphText)))))"

text \<open>
  \<^verbatim>\<open>[...new Set(words)]\<close>: a set of the host language keeps its elements in the order
  of their first insertion.
\<close>

definition Set_add :: "'a list \<Rightarrow> 'a \<Rightarrow> 'a list" where
  "Set_add s x = (if x \<in> set s then s else s @ [x])"

definition newSet :: "'a list \<Rightarrow> 'a list" where
  "newSet xs = foldl Set_add [] xs"

text \<open>
  \<^verbatim>\<open>[...new Set(words)].filter(word => activeModel.embeddings.has(word))\<close>.  The
  callback reads \<^verbatim>\<open>activeModel.embeddings\<close>, which raises for an undefined model, but it
  only runs when there is a word.
\<close>

definition findWords :: "Model option \<Rightarrow> string list \<Rightarrow> exn + string list" where
  "findWords activeModel words =
     (case activeModel of
        None \<Rightarrow> if newSet words = [] then Inr [] else Inl TypeError
      | Some m \<Rightarrow> Inr (filter (\<lambda>word. Map_has (embeddings m) word) (newSet words)))"

subsection \<open>Classification in batches\<close>

text \<open>
  What \<open>processParagraphWords\<close> does to the outside world and when its asynchronous
  pieces run is recorded as a trace of events:
  \<^item> \<open>Request w\<close>: \<^verbatim>\<open>fetch\<close> is called for the word (in \<open>getWordPosDirectly\<close>, which
    the callback of \<^verbatim>\<open>batch.map\<close> calls before its first suspension);
  \<^item> \<open>Response w\<close>: the answer for the word has arrived and \<open>getWordPosDirectly\<close>
    runs to its \<^verbatim>\<open>return\<close>;
  \<^item> \<open>Completed w\<close>: the callback of the word resumes after
    \<^verbatim>\<open>await getWordPosDirectly(word)\<close> and runs to its \<^verbatim>\<open>return\<close>;
  \<^item> \<open>Delay n\<close>: the wait of \<open>n\<close> milliseconds.
  The accumulator holds the local variables of the function next to the state and the
  trace.
\<close>

datatype event = Request string | Response string | Completed string | Delay nat

record pp_acc =
  pp_state :: app_state
  wordsToAdd :: "string list"
  nounsAdded :: nat
  verbsAdded :: nat
  adjectivesAdded :: nat
  adverbsAdded :: nat
  trace :: "event list"

definition batchSize :: nat where
  "batchSize = 25"

definition countPos :: "string option \<Rightarrow> pp_acc \<Rightarrow> pp_acc" where
  "countPos pos acc =
     (if pos = Some ''noun'' then acc\<lparr>nounsAdded := nounsAdded acc + 1\<rparr>
      else if pos = Some ''verb'' then acc\<lparr>verbsAdded := verbsAdded acc + 1\<rparr>
      else if pos = Some ''adjective'' then acc\<lparr>adjectivesAdded := adjectivesAdded acc + 1\<rparr>
      else if pos = Some ''adverb'' then acc\<lparr>adverbsAdded := adverbsAdded acc + 1\<rparr>
      else acc)"

text \<open>
  A callback of \<^verbatim>\<open>batch.map\<close> that has not returned yet is a task: it waits for the
  answer of the service, or \<open>getWordPosDirectly\<close> has returned the part of speech and
  the callback is about to resume.
\<close>

datatype task = Awaiting string | Resumed string string

text \<open>
  The callback of \<^verbatim>\<open>batch.map\<close> up to its first suspension, for one word; the calls
  for the words of a batch run one after the other, in the order of the batch, while
  \<^verbatim>\<open>batch.map\<close> runs.  \<open>s0\<close> is the state of the render in which the paragraph was
  submitted: the tests on \<^verbatim>\<open>highlightedWords\<close> and \<^verbatim>\<open>wordPos\<close> read the values
  captured then.  The triple holds the results of the promises in the order of the
  batch (\<open>None\<close> for \<^verbatim>\<open>null\<close>; a callback that suspends returns its word in the end,
  from the \<^verbatim>\<open>try\<close> block as from the \<^verbatim>\<open>catch\<close> block), the suspended callbacks and
  the accumulator.
\<close>

definition startWord ::
  "app_state \<Rightarrow> string option list \<times> task list \<times> pp_acc \<Rightarrow> string
     \<Rightarrow> string option list \<times> task list \<times> pp_acc" where
  "startWord s0 st word =
     (case st of (results, pending, acc) \<Rightarrow>
        if word \<in> set (highlightedWords s0) then (results @ [None], pending, acc)
        else if Map_has (wordPos s0) word
          then (results @ [Some word], pending, countPos (Map_get (wordPos s0) word) acc)
        else (results @ [Some word], pending @ [Awaiting word],
              acc\<lparr>trace := trace acc @ [Request word]\<rparr>))"

text \<open>
  The rest of the callback, from the point where it resumes with the part of speech:
  the remainder of the \<^verbatim>\<open>try\<close> block, and the \<^verbatim>\<open>catch\<close> block when the update of the
  model raises.  An exception raised in the \<^verbatim>\<open>catch\<close> block rejects the promise of
  the word.
\<close>

definition resumeWord ::
  "app_state \<Rightarrow> pp_acc \<Rightarrow> string \<Rightarrow> string \<Rightarrow> (exn \<times> pp_acc) + pp_acc" where
  "resumeWord s0 acc word pos =
     (let st1 = pp_state acc;
          st2 = st1\<lparr>wordPos := Map_set (wordPos st1) (toLowerCase word) pos\<rparr>
      in (case (if activeModelIndex s0 \<noteq> - 1
                then updateModelPos (activeModelIndex s0) (toLowerCase word) pos st2
                else Inr st2) of
            Inr st3 \<Rightarrow>
              Inr (countPos (Some pos)
                     (acc\<lparr>pp_state := st3, trace := trace acc @ [Completed word]\<rparr>))
          | Inl (e, st3) \<Rightarrow>
              let st4 = st3\<lparr>wordPos :=
                           Map_set (wordPos st3) (toLowerCase word) ''unknown''\<rparr>
              in (case (if activeModelIndex s0 \<noteq> - 1
                        then updateModelPos (activeModelIndex s0) (toLowerCase word)
                               ''unknown'' st4
                        else Inr st4) of
                    Inr st5 \<Rightarrow>
                      Inr (acc\<lparr>pp_state := st5, trace := trace acc @ [Completed word]\<rparr>)
                  | Inl (e', st5) \<Rightarrow> Inl (e', acc\<lparr>pp_state := st5\<rparr>))))"

text \<open>
  \<^verbatim>\<open>await Promise.all(batchPromises)\<close>: the suspended callbacks of the batch run to
  their end, one piece at a time, in an order that the answers of the service and the
  scheduler determine.  The order is a parameter: \<open>pick n\<close> selects, modulo the
  number of suspended callbacks, the one that takes the \<open>n\<close>-th step.  A step of a
  callback that waits for its answer is the return of \<open>getWordPosDirectly\<close>; the
  following step of that callback is its own return, which ends it.  An exception
  ends the run.
\<close>

fun weight :: "task \<Rightarrow> nat" where
  "weight (Awaiting word) = 2"
| "weight (Resumed word pos) = 1"

function runTasks ::
  "dictionary \<Rightarrow> app_state \<Rightarrow> (nat \<Rightarrow> nat) \<Rightarrow> nat \<Rightarrow> task list \<Rightarrow> pp_acc
     \<Rightarrow> (exn \<times> pp_acc) + pp_acc" where
  "runTasks dict s0 pick n pending acc =
     (if pending = [] then Inr acc
      else
        let i = pick n mod length pending in
        (case pending ! i of
           Awaiting word \<Rightarrow>
             (case getWordPosDirectly dict word (pp_state acc) of (pos, st1) \<Rightarrow>
                runTasks dict s0 pick (n + 1) (pending[i := Resumed word pos])
                  (acc\<lparr>pp_state := st1, trace := trace acc @ [Response word]\<rparr>))
         | Resumed word pos \<Rightarrow>
             (case resumeWord s0 acc word pos of
                Inl ex \<Rightarrow> Inl ex
              | Inr acc1 \<Rightarrow>
                  runTasks dict s0 pick (n + 1) (take i pending @ drop (Suc i) pending)
                    acc1)))"
  by pat_completeness auto
termination
proof (relation "measure (\<lambda>(dict, s0, pick, n, pending, acc). sum_list (map weight pending))")
  show "wf (measure (\<lambda>(dict, s0, pick, n, pending, acc). sum_list (map weight pending)))"
    by simp
next
  fix dict :: dictionary and s0 :: app_state and pick :: "nat \<Rightarrow> nat" and n :: nat
    and pending :: "task list" and acc :: pp_acc and i word pos st1 and x :: "string \<times> app_state"
  assume ne: "pending \<noteq> []" and i: "i = pick n mod length pending"
    and t: "pending ! i = Awaiting word"
  from ne i have lt: "i < length pending" by simp
  have a: "pending[i := Resumed word pos] =
      take i pending @ Resumed word pos # drop (Suc i) pending"
    using lt by (rule upd_conv_take_nth_drop)
  have "pending = take i pending @ pending ! i # drop (Suc i) pending"
    using lt by (rule id_take_nth_drop)
  then have "sum_list (map weight pending) =
      sum_list (map weight (take i pending @ pending ! i # drop (Suc i) pending))"
    by (rule arg_cong)
  then have "sum_list (map weight pending) =
      sum_list (map weight (take i pending)) + 2 +
      sum_list (map weight (drop (Suc i) pending))"
    by (simp add: t)
  moreover have "sum_list (map weight (pending[i := Resumed word pos])) =
      sum_list (map weight (take i pending)) + 1 +
      sum_list (map weight (drop (Suc i) pending))"
    by (simp only: a) simp
  ultimately have "sum_list (map weight (pending[i := Resumed word pos])) <
      sum_list (map weight pending)"
    by simp
  then show "((dict, s0, pick, n + 1, pending[i := Resumed word pos],
        acc\<lparr>pp_state := st1, trace := trace acc @ [Response word]\<rparr>),
       dict, s0, pick, n, pending, acc)
      \<in> measure (\<lambda>(dict, s0, pick, n, pending, acc). sum_list (map weight pending))"
    by simp
next
  fix dict :: dictionary and s0 :: app_state and pick :: "nat \<Rightarrow> nat" and n :: nat
    and pending :: "task list" and acc :: pp_acc and i word pos acc1
  assume ne: "pending \<noteq> []" and i: "i = pick n mod length pending"
    and t: "pending ! i = Resumed word pos"
  from ne i have lt: "i < length pending" by simp
  have "pending = take i pending @ pending ! i # drop (Suc i) pending"
    using lt by (rule id_take_nth_drop)
  then have "sum_list (map weight pending) =
      sum_list (map weight (take i pending @ pending ! i # drop (Suc i) pending))"
    by (rule arg_cong)
  then have "sum_list (map weight pending) =
      sum_list (map weight (take i pending @ drop (Suc i) pending)) + 1"
    by (simp add: t)
  then show "((dict, s0, pick, n + 1, take i pending @ drop (Suc i) pending, acc1),
       dict, s0, pick, n, pending, acc)
      \<in> measure (\<lambda>(dict, s0, pick, n, pending, acc). sum_list (map weight pending))"
    by simp
qed

text \<open>
  One batch: \<^verbatim>\<open>batch.map\<close> starts the callbacks, \<^verbatim>\<open>Promise.all\<close> waits for all of
  them and yields their results in the order of the batch.
\<close>

definition processBatch ::
  "dictionary \<Rightarrow> app_state \<Rightarrow> (nat \<Rightarrow> nat) \<Rightarrow> pp_acc \<Rightarrow> string list
     \<Rightarrow> (exn \<times> pp_acc) + (string option list \<times> pp_acc)" where
  "processBatch dict s0 pick acc batch =
     (case foldl (startWord s0) ([], [], acc) batch of (results, pending, acc1) \<Rightarrow>
        (case runTasks dict s0 pick 0 pending acc1 of
           Inl ex \<Rightarrow> Inl ex
         | Inr acc2 \<Rightarrow> Inr (results, acc2)))"

text \<open>\<^verbatim>\<open>xs.slice(i, j)\<close> for \<open>i \<le> j\<close>.\<close>

definition slice :: "'a list \<Rightarrow> nat \<Rightarrow> nat \<Rightarrow> 'a list" where
  "slice xs i j = take (j - i) (drop i xs)"

text \<open>
  The loop \<^verbatim>\<open>for (let i = 0; i < foundWords.length; i += batchSize)\<close>, from the index
  \<open>i\<close> on.  \<open>sched i\<close> is the order in which the callbacks of the batch that starts
  at \<open>i\<close> take their steps.
\<close>

function batchLoop ::
  "dictionary \<Rightarrow> app_state \<Rightarrow> (nat \<Rightarrow> nat \<Rightarrow> nat) \<Rightarrow> string list \<Rightarrow> nat \<Rightarrow> pp_acc
     \<Rightarrow> (exn \<times> pp_acc) + pp_acc" where
  "batchLoop dict s0 sched foundWords i acc =
     (if i < length foundWords then
        (case processBatch dict s0 (sched i) acc (slice foundWords i (i + batchSize)) of
           Inl ex \<Rightarrow> Inl ex
         | Inr (batchResults, acc1) \<Rightarrow>
             let acc2 = acc1\<lparr>wordsToAdd :=
                          wordsToAdd acc1 @ List.map_filter (\<lambda>r. r) batchResults\<rparr>;
                 acc3 = (if i + batchSize < length foundWords
                         then acc2\<lparr>trace := trace acc2 @ [Delay 100]\<rparr> else acc2)
             in batchLoop dict s0 sched foundWords (i + batchSize) acc3)
      else Inr acc)"
  by pat_completeness auto
termination
  by (relation "measure (\<lambda>(dict, s0, sched, foundWords, i, acc). length foundWords - i)")
    (auto simp: batchSize_def)

text \<open>
  \<open>processParagraphWords\<close>: the loop from index zero, then the update of the state.
  \<open>paragraphId\<close> is the fresh identifier built from the clock and a random number.
\<close>

definition processParagraphWords ::
  "dictionary \<Rightarrow> (nat \<Rightarrow> nat \<Rightarrow> nat) \<Rightarrow> string \<Rightarrow> string \<Rightarrow> string list \<Rightarrow> app_state
     \<Rightarrow> app_state \<Rightarrow> (exn \<times> app_state) + (app_state \<times> event list)" where
  "processParagraphWords dict sched paragraphId paragraphText foundWords s0 s1 =
     (case batchLoop dict s0 sched foundWords 0
             \<lparr>pp_state = s1, wordsToAdd = [], nounsAdded = 0, verbsAdded = 0,
              adjectivesAdded = 0, adverbsAdded = 0, trace = []\<rparr> of
        Inl (e, acc) \<Rightarrow> Inl (e, pp_state acc)
      | Inr acc \<Rightarrow>
          let st = pp_state acc in
          if length (wordsToAdd acc) > 0 then
            Inr (st\<lparr>savedParagraphs := savedParagraphs st @
                       [\<lparr>para_id = paragraphId, para_text = paragraphText,
                         para_words = wordsToAdd acc\<rparr>],
                    highlightedWords := highlightedWords s0 @ wordsToAdd acc,
                    success := AddedFromParagraph (length (wordsToAdd acc)) (nounsAdded acc)
                                 (verbsAdded acc) (adjectivesAdded acc) (adverbsAdded acc),
                    error := NoNotice, isLoading := False, paragraphInput := []\<rparr>,
                 trace acc)
          else
            Inr (st\<lparr>error := NoNewWords, success := NoNotice, isLoading := False,
                    paragraphInput := []\<rparr>,
                 trace acc))"

definition handleParagraphSubmit ::
  "dictionary \<Rightarrow> (nat \<Rightarrow> nat \<Rightarrow> nat) \<Rightarrow> string \<Rightarrow> app_state
     \<Rightarrow> (exn \<times> app_state) + (app_state \<times> event list)" where
  "handleParagraphSubmit dict sched paragraphId s =
     (if trim (paragraphInput s) = [] then Inr (s, [])
      else if activeModelIndex s = - 1
        then Inr (s\<lparr>error := NoActiveModel, success := NoNotice\<rparr>, [])
      else
        let s1 = s\<lparr>isLoading := True, error := NoNotice, success := NoNotice\<rparr>;
            activeModel = models_at (models s) (activeModelIndex s);
            paragraphText = trim (paragraphInput s);
            words = extractWords paragraphText
        in (case findWords activeModel words of
              Inl e \<Rightarrow> Inl (e, s1)
            | Inr foundWords \<Rightarrow>
                if length foundWords = 0
                  then Inr (s1\<lparr>error := NoMatch, isLoading := False\<rparr>, [])
                else processParagraphWords dict sched paragraphId paragraphText foundWords s s1))"

subsection \<open>The extraction in the words of the specification\<close>

text \<open>
  The tokens of a text are its maximal runs of letters and digits: the text is cut at
  every other character (the underscore included) and the empty pieces are dropped.
  The candidate words are the tokens of the lower-cased text without a digit,
  each one kept at its first occurrence, that the vocabulary contains.
\<close>

definition isSeparator :: "char \<Rightarrow> bool" where
  "isSeparator c = (\<not> isWordChar c \<or> c = CHR ''_'')"

fun splitBy :: "(char \<Rightarrow> bool) \<Rightarrow> string \<Rightarrow> string list" where
  "splitBy P [] = [[]]"
| "splitBy P (c # cs) =
     (if P c then [] # splitBy P cs
      else (case splitBy P cs of
              [] \<Rightarrow> [[c]]
            | w # ws \<Rightarrow> (c # w) # ws))"

definition tokens :: "string \<Rightarrow> string list" where
  "tokens s = filter (\<lambda>w. w \<noteq> []) (splitBy isSeparator s)"

fun firstSeen :: "'a list \<Rightarrow> 'a list \<Rightarrow> 'a list" where
  "firstSeen seen [] = []"
| "firstSeen seen (x # xs) =
     (if x \<in> set seen then firstSeen seen xs else x # firstSeen (x # seen) xs)"

definition candidateWords :: "(string, WordEmbedding) jsmap \<Rightarrow> string \<Rightarrow> string list" where
  "candidateWords vocabulary text =
     filter (\<lambda>w. Map_has vocabulary w)
       (firstSeen [] (filter (\<lambda>w. \<not> list_ex isDigit w) (tokens (toLowerCase text))))"

text \<open>
  The candidate words when the non-word characters are taken as the characters outside
  the class \<^verbatim>\<open>\w\<close>, which has the underscore.
\<close>

definition claimedCandidateWords :: "(string, WordEmbedding) jsmap \<Rightarrow> string \<Rightarrow> string list" where
  "claimedCandidateWords vocabulary text =
     filter (\<lambda>w. Map_has vocabulary w)
       (firstSeen [] (filter (\<lambda>w. \<not> list_ex isDigit w)
          (filter (\<lambda>w. w \<noteq> []) (splitBy (\<lambda>c. \<not> isWordChar c) (toLowerCase text)))))"

text \<open>The partition of a list into consecutive pieces of a fixed positive size.\<close>

function chunks :: "nat \<Rightarrow> 'a list \<Rightarrow> 'a list list" where
  "chunks n xs = (if n = 0 \<or> xs = [] then [] else take n xs # chunks n (drop n xs))"
  by pat_completeness auto
termination
  by (relation "measure (\<lambda>(n, xs). length xs)") auto

fun intersperse :: "'a list \<Rightarrow> 'a list list \<Rightarrow> 'a list" where
  "intersperse sep [] = []"
| "intersperse sep [b] = b"
| "intersperse sep (b # c # bs) = b @ sep @ intersperse sep (c # bs)"

section \<open>The invariant of the highlighted words\<close>

text \<open>
  Every highlighted word is a key of the active model; without an active model no word
  is highlighted.
\<close>

definition highlightInvariant :: "app_state \<Rightarrow> bool" where
  "highlightInvariant s =
     (case models_at (models s) (activeModelIndex s) of
        None \<Rightarrow> highlightedWords s = []
      | Some m \<Rightarrow> list_all (\<lambda>word. Map_has (embeddings m) word) (highlightedWords s))"

section \<open>Auxiliary notions\<close>

text \<open>
  Two states that differ at most in the definitions, the cache of parts of speech and
  the models: what a classification may change.
\<close>

definition cachesOnly :: "app_state \<Rightarrow> app_state \<Rightarrow> bool" where
  "cachesOnly s t =
     (t\<lparr>wordMeanings := wordMeanings s, wordPos := wordPos s, models := models s\<rparr> = s)"

text \<open>The word of a suspended callback, and the events it still has to produce.\<close>

fun wordOf :: "task \<Rightarrow> string" where
  "wordOf (Awaiting word) = word"
| "wordOf (Resumed word pos) = word"

fun taskEvents :: "task \<Rightarrow> event list" where
  "taskEvents (Awaiting word) = [Response word, Completed word]"
| "taskEvents (Resumed word pos) = [Completed word]"

text \<open>
  The words of a batch for which the dictionary service is asked: those that were
  neither highlighted nor in the cache when the paragraph was submitted.
\<close>

definition toFetch :: "app_state \<Rightarrow> string list \<Rightarrow> string list" where
  "toFetch s0 batch =
     filter (\<lambda>w. w \<notin> set (highlightedWords s0) \<and> \<not> Map_has (wordPos s0) w) batch"

text \<open>
  An event is about a word.  The events \<open>c\<close> complete the requests for the words \<open>ws\<close>
  when every event of \<open>c\<close> is about one of the words and the events about each word are
  its response followed by its completion.
\<close>

definition about :: "string \<Rightarrow> event \<Rightarrow> bool" where
  "about w e = (e = Request w \<or> e = Response w \<or> e = Completed w)"

definition completes :: "string list \<Rightarrow> event list \<Rightarrow> bool" where
  "completes ws c =
     (list_all (\<lambda>e. list_ex (\<lambda>w. about w e) ws) c \<and>
      list_all (\<lambda>w. filter (about w) c = [Response w, Completed w]) ws)"

text \<open>The trace of one batch: its requests, then the events that complete them.\<close>

definition batchTrace :: "app_state \<Rightarrow> string list \<times> event list \<Rightarrow> event list" where
  "batchTrace s0 bc = (case bc of (batch, c) \<Rightarrow> map Request (toFetch s0 batch) @ c)"

section \<open>The session\<close>

subsection \<open>The remaining handlers\<close>

text \<open>
  \<open>removeModel\<close> for the model at a position of the list; \<^verbatim>\<open>activeModelIndex\<close> is the
  value of the render in which the button was pressed.
\<close>

definition removeModel :: "nat \<Rightarrow> app_state \<Rightarrow> app_state" where
  "removeModel indexToRemove s =
     (let s1 = s\<lparr>models := map fst (filter (\<lambda>p. snd p \<noteq> indexToRemove)
                               (zip (models s) [0..<length (models s)]))\<rparr>
      in if activeModelIndex s = int indexToRemove
           then s1\<lparr>activeModelIndex := - 1, highlightedWords := [],
                   error := NoNotice, success := NoNotice\<rparr>
         else if activeModelIndex s > int indexToRemove
           then s1\<lparr>activeModelIndex := activeModelIndex s - 1\<rparr>
         else s1)"

definition removeWord :: "string \<Rightarrow> app_state \<Rightarrow> app_state" where
  "removeWord wordToRemove s =
     s\<lparr>highlightedWords := filter (\<lambda>word. word \<noteq> wordToRemove) (highlightedWords s)\<rparr>"

definition toggleActiveParagraph :: "string \<Rightarrow> app_state \<Rightarrow> app_state" where
  "toggleActiveParagraph paragraphId s =
     (if activeParagraphId s = Some paragraphId then s\<lparr>activeParagraphId := None\<rparr>
      else s\<lparr>activeParagraphId := Some paragraphId\<rparr>)"

definition toggleExpandParagraph :: "string \<Rightarrow> app_state \<Rightarrow> app_state" where
  "toggleExpandParagraph paragraphId s =
     (if expandedParagraphId s = Some paragraphId then s\<lparr>expandedParagraphId := None\<rparr>
      else s\<lparr>expandedParagraphId := Some paragraphId\<rparr>)"

subsection \<open>The steps of a session\<close>

text \<open>
  What can happen to the state: the events of the interface, each with the handler that
  the component binds to it, and the effect hook.
  \<^item> \<open>Upload\<close>: a file is chosen (\<open>handleFileUpload\<close>);
  \<^item> \<open>TypeWord\<close>, \<open>TypeParagraph\<close>: the two inputs change (\<^verbatim>\<open>setSearchWord\<close>,
    \<^verbatim>\<open>setParagraph\<close>);
  \<^item> \<open>AddWord\<close>: the button or the enter key of the word input (\<open>handleSearch\<close>), with
    the dictionary service as it answers at that time;
  \<^item> \<open>SubmitParagraph\<close>: the button of the paragraph input (\<open>handleParagraphSubmit\<close>),
    with the service, the order of the callbacks and the identifier drawn;
  \<^item> \<open>ClearAllWords\<close>: the button bound to \<^verbatim>\<open>() => setHighlightedWords([])\<close>;
  \<^item> \<open>SelectModel\<close>, \<open>RemoveModel\<close>: a click on an item of the list of models or on its
    remove button, with the position of the item;
  \<^item> \<open>RemoveWord\<close>, \<open>ToggleActiveParagraph\<close>, \<open>ToggleExpandParagraph\<close>,
    \<open>RemoveParagraph\<close>: the buttons of the lists of words and paragraphs;
  \<^item> \<open>FetchWordData\<close>: one call \<^verbatim>\<open>fetchWordData(lowerWord)\<close> of the loop in the effect
    hook, with the service as it answers at that time.
  A handler that raises leaves the state it had reached.
\<close>

datatype action =
    Upload "(string \<times> papa_result) option"
  | TypeWord string
  | AddWord dictionary
  | TypeParagraph string
  | SubmitParagraph dictionary "nat \<Rightarrow> nat \<Rightarrow> nat" string
  | ClearAllWords
  | SelectModel nat
  | RemoveModel nat
  | RemoveWord string
  | ToggleActiveParagraph string
  | ToggleExpandParagraph string
  | RemoveParagraph string
  | FetchWordData dictionary string

fun run :: "action \<Rightarrow> app_state \<Rightarrow> app_state" where
  "run (Upload file) s = handleFileUpload file s"
| "run (TypeWord text) s = s\<lparr>searchWord := text\<rparr>"
| "run (AddWord dict) s =
     (case handleSearch dict s of Inl (e, s') \<Rightarrow> s' | Inr s' \<Rightarrow> s')"
| "run (TypeParagraph text) s = s\<lparr>paragraphInput := text\<rparr>"
| "run (SubmitParagraph dict sched paragraphId) s =
     (case handleParagraphSubmit dict sched paragraphId s of
        Inl (e, s') \<Rightarrow> s' | Inr (s', tr) \<Rightarrow> s')"
| "run ClearAllWords s = s\<lparr>highlightedWords := []\<rparr>"
| "run (SelectModel index) s =
     (case selectModel (int index) s of Inl (e, s') \<Rightarrow> s' | Inr s' \<Rightarrow> s')"
| "run (RemoveModel index) s = removeModel index s"
| "run (RemoveWord word) s = removeWord word s"
| "run (ToggleActiveParagraph paragraphId) s = toggleActiveParagraph paragraphId s"
| "run (ToggleExpandParagraph paragraphId) s = toggleExpandParagraph paragraphId s"
| "run (RemoveParagraph paragraphId) s = removeParagraph paragraphId s"
| "run (FetchWordData dict lowerWord) s = fetchWordData dict lowerWord s"

text \<open>
  When a step can happen.  The items of the list of models are the models of the state.
  The effect hook calls \<open>fetchWordData\<close> for the lower-cased form of a highlighted word
  that lacks a definition or a part of speech in the caches.  The handlers of the
  other events are taken in every state and with every argument.
\<close>

fun enabled :: "action \<Rightarrow> app_state \<Rightarrow> bool" where
  "enabled (SelectModel index) s = (index < length (models s))"
| "enabled (RemoveModel index) s = (index < length (models s))"
| "enabled (FetchWordData dict lowerWord) s =
     list_ex (\<lambda>word. lowerWord = toLowerCase word \<and>
                (\<not> Map_has (wordMeanings s) lowerWord \<or> \<not> Map_has (wordPos s) lowerWord))
       (highlightedWords s)"
| "enabled a s = True"

text \<open>\<open>later s t\<close>: the state \<open>t\<close> is reached from \<open>s\<close> by steps of the session.\<close>

inductive later :: "app_state \<Rightarrow> app_state \<Rightarrow> bool" where
  now: "later s s"
| step: "later s t \<Longrightarrow> enabled a t \<Longrightarrow> later s (run a t)"

text \<open>
  The classifications that resolve in a step, each as the word and the class that the
  answer of the service stands for: \<open>handleSearch\<close> awaits \<open>getWordPosDirectly\<close> for a
  word of the active model that is neither highlighted nor in the cache;
  \<open>processParagraphWords\<close> does for the candidate words that are neither highlighted nor
  in the cache; \<open>fetchWordData\<close> classifies its word.
\<close>

fun classifications :: "action \<Rightarrow> app_state \<Rightarrow> (string \<times> string) list" where
  "classifications (AddWord dict) s =
     (let word = toLowerCase (trim (searchWord s)) in
      if word \<noteq> [] \<and> activeModelIndex s \<noteq> - 1 \<and>
         (case models_at (models s) (activeModelIndex s) of
            None \<Rightarrow> False
          | Some activeModel \<Rightarrow> Map_has (embeddings activeModel) word) \<and>
         word \<notin> set (highlightedWords s) \<and> \<not> Map_has (wordPos s) word
      then [(word, classify dict word)] else [])"
| "classifications (SubmitParagraph dict sched paragraphId) s =
     (if trim (paragraphInput s) = [] \<or> activeModelIndex s = - 1 then []
      else (case models_at (models s) (activeModelIndex s) of
              None \<Rightarrow> []
            | Some activeModel \<Rightarrow>
                map (\<lambda>word. (word, classify dict word))
                  (toFetch s (candidateWords (embeddings activeModel) (paragraphInput s)))))"
| "classifications (FetchWordData dict lowerWord) s = [(lowerWord, classify dict lowerWord)]"
| "classifications a s = []"

text \<open>
  The invariant of the caches: the index of the active model is \<open>-1\<close> or a position of
  the list of models; the lower-cased form of every highlighted word has a part of
  speech in the cache; and a part of speech cached for a word without a cached
  definition is \<open>unknown\<close>.
\<close>

definition cacheInvariant :: "app_state \<Rightarrow> bool" where
  "cacheInvariant s =
     ((activeModelIndex s = - 1 \<or>
       (0 \<le> activeModelIndex s \<and> activeModelIndex s < int (length (models s)))) \<and>
      (\<forall>w \<in> set (highlightedWords s). Map_has (wordPos s) (toLowerCase w)) \<and>
      (\<forall>k. Map_has (wordPos s) k \<and> \<not> Map_has (wordMeanings s) k \<longrightarrow>
           Map_get (wordPos s) k = Some ''unknown''))"

text \<open>
  A state extends another one when the active index is the same and still a position of
  the list of models if it was one, the definitions cached are still cached, and the
  part of speech of a word is unchanged, or it is one whose definition is cached unless
  it is \<open>unknown\<close>.
\<close>

definition extends :: "app_state \<Rightarrow> app_state \<Rightarrow> bool" where
  "extends s t =
     (activeModelIndex t = activeModelIndex s \<and>
      (activeModelIndex s < int (length (models s)) \<longrightarrow>
         activeModelIndex s < int (length (models t))) \<and>
      (\<forall>k. Map_has (wordMeanings s) k \<longrightarrow> Map_has (wordMeanings t) k) \<and>
      (\<forall>k. Map_get (wordPos t) k = Map_get (wordPos s) k \<or>
           (\<exists>c. Map_get (wordPos t) k = Some c \<and>
                (c \<noteq> ''unknown'' \<longrightarrow> Map_has (wordMeanings t) k))))"

section \<open>Properties of loading\<close>

subsection \<open>Insertion-ordered maps\<close>


lemma map_of_Map_set: "map_of (Map_set m k v) = (map_of m)(k \<mapsto> v)"
  by (induction m k v rule: Map_set.induct) (auto simp: fun_eq_iff)

lemma keys_Map_set: "fst ` set (Map_set m k v) = insert k (fst ` set m)"
  by (induction m k v rule: Map_set.induct) auto

lemma distinct_Map_set:
  "distinct (map fst m) \<Longrightarrow> distinct (map fst (Map_set m k v))"
  by (induction m k v rule: Map_set.induct) (auto simp: keys_Map_set)

subsection \<open>The fold over the rows\<close>

lemma processRow_cases:
  "processRow wp (m, n) r =
     (if skippedRow r then (m, n)
      else if invalidRow r then (m, n + 1)
      else (Map_set m (rowKey r) (rowEmbedding wp r), n))"
  by (simp add: processRow_def skippedRow_def invalidRow_def rowWord_def rowX_def rowY_def
      rowKey_def rowEmbedding_def Let_def)

lemma row_kinds: "validRow r \<longleftrightarrow> \<not> skippedRow r \<and> \<not> invalidRow r"
  by (auto simp: validRow_def invalidRow_def)

lemma processRows_snoc:
  "processRows wp (rows @ [r]) = processRow wp (processRows wp rows) r"
  by (simp add: processRows_def)

lemma processRows_invalid: "snd (processRows wp rows) = length (filter invalidRow rows)"
proof (induction rows rule: rev_induct)
  case Nil
  show ?case by (simp add: processRows_def)
next
  case (snoc r rows)
  obtain m n where mn: "processRows wp rows = (m, n)" by (cases "processRows wp rows")
  with snoc show ?case
    by (auto simp: processRows_snoc processRow_cases invalidRow_def)
qed

lemma processRows_map:
  "map_of (fst (processRows wp rows)) =
     map_of (rev (map (\<lambda>r. (rowKey r, rowEmbedding wp r)) (filter validRow rows)))"
proof (induction rows rule: rev_induct)
  case Nil
  show ?case by (simp add: processRows_def)
next
  case (snoc r rows)
  obtain m n where mn: "processRows wp rows = (m, n)" by (cases "processRows wp rows")
  with snoc show ?case
    by (auto simp: processRows_snoc processRow_cases row_kinds map_of_Map_set fun_eq_iff)
qed

lemma processRows_keys:
  "fst ` set (fst (processRows wp rows)) = rowKey ` set (filter validRow rows)"
proof (induction rows rule: rev_induct)
  case Nil
  show ?case by (simp add: processRows_def)
next
  case (snoc r rows)
  obtain m n where mn: "processRows wp rows = (m, n)" by (cases "processRows wp rows")
  with snoc show ?case
    by (auto simp: processRows_snoc processRow_cases row_kinds keys_Map_set)
qed

lemma processRows_distinct: "distinct (map fst (fst (processRows wp rows)))"
proof (induction rows rule: rev_induct)
  case Nil
  show ?case by (simp add: processRows_def)
next
  case (snoc r rows)
  obtain m n where mn: "processRows wp rows = (m, n)" by (cases "processRows wp rows")
  with snoc show ?case
    by (auto simp: processRows_snoc processRow_cases distinct_Map_set)
qed

lemma processRows_size:
  "Map_size (fst (processRows wp rows)) = card (rowKey ` set (filter validRow rows))"
proof -
  have "Map_size (fst (processRows wp rows)) = length (map fst (fst (processRows wp rows)))"
    by (simp add: Map_size_def)
  also have "\<dots> = card (set (map fst (fst (processRows wp rows))))"
    using processRows_distinct [of wp rows] by (simp only: distinct_card)
  finally show ?thesis by (simp add: processRows_keys)
qed

lemma last_wins:
  "map_of (rev (map (\<lambda>r. (key r, emb r)) vs)) k =
     (case filter (\<lambda>r. key r = k) vs of [] \<Rightarrow> None | r # rs \<Rightarrow> Some (emb (last (r # rs))))"
  by (induction vs rule: rev_induct) (auto split: list.splits)


subsection \<open>Evaluation of the definitions on concrete inputs\<close>

lemmas string_eval =
  trim_def isWhiteSpace_def stripQuotes_def isQuote_def toLowerCase_def toLowerChar_def
  isDigit_def

lemmas number_eval =
  Number_def StrUnsignedDecimalLiteral_def ExponentPart_def integerLiteral_def
  digitValue_def negate_def isNaN_def

lemmas row_eval =
  rowWord_def rowX_def rowY_def rowKey_def rowEmbedding_def skippedRow_def invalidRow_def
  validRow_def specInvalidRow_def

subsection \<open>A file with a valid row is loaded\<close>

lemma processRows_nonempty:
  assumes "filter validRow rows \<noteq> []"
  shows "Map_size (fst (processRows wp rows)) \<noteq> 0"
proof -
  from assms obtain r where "r \<in> set (filter validRow rows)"
    by (cases "filter validRow rows") auto
  then have "rowKey r \<in> rowKey ` set (filter validRow rows)" by (rule imageI)
  then have "card (rowKey ` set (filter validRow rows)) \<noteq> 0" by auto
  then show ?thesis by (simp add: processRows_size)
qed

lemma handleFileUpload_loaded:
  assumes "filter validRow rows \<noteq> []"
  shows "handleFileUpload (Some (fileName, Complete rows)) s =
     s\<lparr>isLoading := False, error := NoNotice,
        models := models s @ [\<lparr>model_name = removeExtension fileName,
                                embeddings = fst (processRows (wordPos s) rows)\<rparr>],
        activeModelIndex := int (length (models s)),
        success := ModelLoaded (Map_size (fst (processRows (wordPos s) rows)))
                     (snd (processRows (wordPos s) rows))\<rparr>"
proof -
  obtain m n where mn: "processRows (wordPos s) rows = (m, n)"
    by (cases "processRows (wordPos s) rows")
  with processRows_nonempty [OF assms, of "wordPos s"] have "Map_size m \<noteq> 0" by simp
  with mn show ?thesis
    by (simp add: handleFileUpload_def parseComplete_def Let_def)
qed


lemma processRows_lookup:
  "Map_get (fst (processRows wp rows)) k =
     (case filter (\<lambda>r. rowKey r = k) (filter validRow rows) of
        [] \<Rightarrow> None
      | r # rs \<Rightarrow> Some (rowEmbedding wp (last (r # rs))))"
  unfolding Map_get_def processRows_map by (rule last_wins)

lemma card_less_length: "\<not> distinct xs \<Longrightarrow> card (set xs) < length xs"
  using card_length [of xs] card_distinct [of xs] by (cases "card (set xs) = length xs") auto

subsection \<open>Counts of a loaded model\<close>

text \<open>
  Claim C1, as amended.  A file with at least one valid row is loaded as a new model, which
  becomes the active one.  Its number of embeddings is the number of distinct lower-cased
  words among the valid rows; the reported invalid count is the number of rows that have
  at least three cells and a word that is neither empty nor a single period, but a
  coordinate that does not parse.  Rows with an empty or period-only word are skipped
  without being counted.
\<close>

theorem loadModel_counts:
  assumes "filter validRow rows \<noteq> []"
  shows "\<exists>m. models (handleFileUpload (Some (fileName, Complete rows)) s) =
           models s @ [\<lparr>model_name = removeExtension fileName, embeddings = m\<rparr>] \<and>
         Map_size m = card (rowKey ` set (filter validRow rows)) \<and>
         success (handleFileUpload (Some (fileName, Complete rows)) s) =
           ModelLoaded (Map_size m) (length (filter invalidRow rows)) \<and>
         error (handleFileUpload (Some (fileName, Complete rows)) s) = NoNotice \<and>
         activeModelIndex (handleFileUpload (Some (fileName, Complete rows)) s) =
           int (length (models s))"
  by (simp add: handleFileUpload_loaded [OF assms] processRows_size processRows_invalid)

text \<open>
  The rows of the specification's example: one embedding, stored under \<open>apple\<close> with the
  word \<open>Apple\<close> at \<open>(0.1, 0.2)\<close>, and an invalid count of one.
\<close>

theorem loadModel_counts_witness:
  "filter validRow [[''0.1'', ''0.2'', ''Apple''], [''x'', ''0.3'', ''dog''], [''0.5'', ''0.6'', ''.'']] \<noteq> [] \<and>
   models (handleFileUpload (Some (''embeddings.csv'',
       Complete [[''0.1'', ''0.2'', ''Apple''], [''x'', ''0.3'', ''dog''], [''0.5'', ''0.6'', ''.'']]))
     initialState) =
     [\<lparr>model_name = ''embeddings'',
       embeddings = [(''apple'', \<lparr>we_word = ''Apple'', we_x = Finite (1 / 10),
                                  we_y = Finite (1 / 5), we_pos = None\<rparr>)]\<rparr>] \<and>
   success (handleFileUpload (Some (''embeddings.csv'',
       Complete [[''0.1'', ''0.2'', ''Apple''], [''x'', ''0.3'', ''dog''], [''0.5'', ''0.6'', ''.'']]))
     initialState) = ModelLoaded 1 1"
proof -
  let ?rows = "[[''0.1'', ''0.2'', ''Apple''], [''x'', ''0.3'', ''dog''], [''0.5'', ''0.6'', ''.'']]"
  have v: "filter validRow ?rows = [[''0.1'', ''0.2'', ''Apple'']]"
    by (simp add: row_eval string_eval number_eval)
  have i: "filter invalidRow ?rows = [[''x'', ''0.3'', ''dog'']]"
    by (simp add: row_eval string_eval number_eval)
  have h: "filter validRow ?rows \<noteq> []"
    by (simp only: v) simp
  from loadModel_counts [OF h, of "''embeddings.csv''" initialState]
  obtain m where
    m: "models (handleFileUpload (Some (''embeddings.csv'', Complete ?rows)) initialState) =
          models initialState @ [\<lparr>model_name = removeExtension ''embeddings.csv'', embeddings = m\<rparr>]"
    and sz: "Map_size m = card (rowKey ` set (filter validRow ?rows))"
    and su: "success (handleFileUpload (Some (''embeddings.csv'', Complete ?rows)) initialState) =
          ModelLoaded (Map_size m) (length (filter invalidRow ?rows))"
    by blast
  have e: "embeddings (last (models (handleFileUpload (Some (''embeddings.csv'', Complete ?rows)) initialState))) =
     [(''apple'', \<lparr>we_word = ''Apple'', we_x = Finite (1 / 10),
                                  we_y = Finite (1 / 5), we_pos = None\<rparr>)]"
    by (simp add: handleFileUpload_def parseComplete_def processRows_def processRow_def
        initialState_def Map_size_def Map_get_def string_eval number_eval)
  have m': "m = [(''apple'', \<lparr>we_word = ''Apple'', we_x = Finite (1 / 10),
                                  we_y = Finite (1 / 5), we_pos = None\<rparr>)]"
    using e by (simp add: m)
  have n: "removeExtension ''embeddings.csv'' = ''embeddings''"
    by (simp add: removeExtension_def)
  have "models (handleFileUpload (Some (''embeddings.csv'', Complete ?rows)) initialState) =
     [\<lparr>model_name = ''embeddings'', embeddings = m\<rparr>]"
    using m by (simp add: n initialState_def)
  moreover have "success (handleFileUpload (Some (''embeddings.csv'', Complete ?rows)) initialState) =
     ModelLoaded 1 1"
    using su [unfolded i] by (simp add: m' Map_size_def)
  ultimately show ?thesis
    using h unfolding m' by (intro conjI)
qed

text \<open>
  On these rows the specification counts two invalid rows (the one with the coordinate
  \<open>x\<close> and the one whose word is a period); the code reports one, since the row with the
  period is left before \<^verbatim>\<open>invalidCount\<close> is touched.
\<close>

theorem loadModel_invalid_count_counterexample:
  "success (handleFileUpload (Some (''embeddings.csv'',
       Complete [[''0.1'', ''0.2'', ''Apple''], [''x'', ''0.3'', ''dog''], [''0.5'', ''0.6'', ''.'']]))
     initialState) = ModelLoaded 1 1 \<and>
   length (filter specInvalidRow
     [[''0.1'', ''0.2'', ''Apple''], [''x'', ''0.3'', ''dog''], [''0.5'', ''0.6'', ''.'']]) = 2"
  by (simp add: handleFileUpload_def parseComplete_def processRows_def processRow_def
      initialState_def Map_size_def Map_get_def row_eval string_eval number_eval)

subsection \<open>Rows with the same word\<close>

text \<open>
  Claim C10.  When several valid rows have the same word after trimming, quote stripping
  and lower-casing, the loaded model has one embedding under that key, with the
  coordinates and the original-case word of the last such row; the number of embeddings
  is the number of distinct keys, which is smaller than the number of valid rows as soon
  as two of them share a key.
\<close>

theorem duplicate_words_last_wins:
  assumes "filter validRow rows \<noteq> []"
  shows "\<exists>m. models (handleFileUpload (Some (fileName, Complete rows)) s) =
           models s @ [\<lparr>model_name = removeExtension fileName, embeddings = m\<rparr>] \<and>
         (\<forall>k. Map_get m k =
            (case filter (\<lambda>r. rowKey r = k) (filter validRow rows) of
               [] \<Rightarrow> None
             | r # rs \<Rightarrow> Some (rowEmbedding (wordPos s) (last (r # rs))))) \<and>
         Map_size m = length (remdups (map rowKey (filter validRow rows))) \<and>
         (\<not> distinct (map rowKey (filter validRow rows)) \<longrightarrow>
            Map_size m < length (filter validRow rows))"
proof -
  let ?m = "fst (processRows (wordPos s) rows)"
  have sz: "Map_size ?m = card (set (map rowKey (filter validRow rows)))"
    by (simp add: processRows_size)
  have "Map_size ?m = length (remdups (map rowKey (filter validRow rows)))"
    by (simp only: sz length_remdups_card_conv)
  moreover have "\<not> distinct (map rowKey (filter validRow rows)) \<longrightarrow>
      Map_size ?m < length (filter validRow rows)"
    using card_less_length [of "map rowKey (filter validRow rows)"] by (simp add: sz)
  moreover have "models (handleFileUpload (Some (fileName, Complete rows)) s) =
      models s @ [\<lparr>model_name = removeExtension fileName, embeddings = ?m\<rparr>]"
    by (simp add: handleFileUpload_loaded [OF assms])
  ultimately show ?thesis
    using processRows_lookup [of "wordPos s" rows] by blast
qed

text \<open>Two rows for \<open>Apple\<close> and \<open>apple\<close>: one embedding, that of the second row.\<close>

theorem duplicate_words_last_wins_witness:
  "filter validRow [[''0.1'', ''0.2'', ''Apple''], [''0.3'', ''0.4'', ''apple'']] \<noteq> [] \<and>
   \<not> distinct (map rowKey
        (filter validRow [[''0.1'', ''0.2'', ''Apple''], [''0.3'', ''0.4'', ''apple'']])) \<and>
   (\<exists>m. models (handleFileUpload (Some (''embeddings.csv'',
            Complete [[''0.1'', ''0.2'', ''Apple''], [''0.3'', ''0.4'', ''apple'']])) initialState) =
          [\<lparr>model_name = ''embeddings'', embeddings = m\<rparr>] \<and>
        Map_get m ''apple'' =
          Some \<lparr>we_word = ''apple'', we_x = Finite (3 / 10), we_y = Finite (2 / 5),
                we_pos = None\<rparr> \<and>
        Map_size m = 1 \<and> Map_size m < 2)"
proof -
  let ?rows = "[[''0.1'', ''0.2'', ''Apple''], [''0.3'', ''0.4'', ''apple'']]"
  have v: "filter validRow ?rows = ?rows"
    by (simp add: row_eval string_eval number_eval)
  have h: "filter validRow ?rows \<noteq> []"
    by (simp only: v) simp
  have k: "map rowKey ?rows = [''apple'', ''apple'']"
    by (simp add: row_eval string_eval)
  have d: "\<not> distinct (map rowKey (filter validRow ?rows))"
    by (simp only: v k) simp
  have e: "rowEmbedding (wordPos initialState) [''0.3'', ''0.4'', ''apple''] =
     \<lparr>we_word = ''apple'', we_x = Finite (3 / 10), we_y = Finite (2 / 5), we_pos = None\<rparr>"
    by (simp add: row_eval string_eval number_eval initialState_def Map_get_def)
  have f: "filter (\<lambda>r. rowKey r = ''apple'') ?rows = ?rows"
    by (simp add: row_eval string_eval)
  have n: "removeExtension ''embeddings.csv'' = ''embeddings''"
    by (simp add: removeExtension_def)
  from duplicate_words_last_wins [OF h, of "''embeddings.csv''" initialState]
  obtain m where
    m: "models (handleFileUpload (Some (''embeddings.csv'', Complete ?rows)) initialState) =
          models initialState @ [\<lparr>model_name = removeExtension ''embeddings.csv'', embeddings = m\<rparr>]"
    and g: "\<forall>k. Map_get m k =
            (case filter (\<lambda>r. rowKey r = k) (filter validRow ?rows) of
               [] \<Rightarrow> None
             | r # rs \<Rightarrow> Some (rowEmbedding (wordPos initialState) (last (r # rs))))"
    and sz: "Map_size m = length (remdups (map rowKey (filter validRow ?rows)))"
    and lt: "\<not> distinct (map rowKey (filter validRow ?rows)) \<longrightarrow>
            Map_size m < length (filter validRow ?rows)"
    by blast
  have 1: "models (handleFileUpload (Some (''embeddings.csv'', Complete ?rows)) initialState) =
          [\<lparr>model_name = ''embeddings'', embeddings = m\<rparr>]"
    using m by (simp add: n initialState_def)
  have "Map_get m ''apple'' =
      (case filter (\<lambda>r. rowKey r = ''apple'') (filter validRow ?rows) of
               [] \<Rightarrow> None
             | r # rs \<Rightarrow> Some (rowEmbedding (wordPos initialState) (last (r # rs))))"
    using g by blast
  then have 2: "Map_get m ''apple'' =
          Some \<lparr>we_word = ''apple'', we_x = Finite (3 / 10), we_y = Finite (2 / 5),
                we_pos = None\<rparr>"
    unfolding v f by (simp add: e)
  have 3: "Map_size m = 1"
    using sz unfolding v k by simp
  have 4: "Map_size m < 2"
    using lt d unfolding v by simp
  from h d 1 2 3 4 show ?thesis by blast
qed

section \<open>Properties of the classification\<close>

lemma truthy_getIndex0: "truthy v \<Longrightarrow> \<exists>u. getIndex0 v = Inr u"
  by (cases v) (auto simp: truthy_def)

lemma truthy_getProp: "truthy v \<Longrightarrow> \<exists>u. getProp v k = Inr u"
  by (cases v) (auto simp: truthy_def)

lemma firstMeaning_total: "\<exists>r. firstMeaning data = Inr r"
proof (cases "truthy data")
  case False
  then show ?thesis by (simp add: firstMeaning_def)
next
  case True
  then obtain d0 where d0: "getIndex0 data = Inr d0" using truthy_getIndex0 by blast
  show ?thesis
  proof (cases "truthy d0")
    case False
    with True d0 show ?thesis by (simp add: firstMeaning_def bind_exn_def)
  next
    case t0: True
    then obtain ms where ms: "getProp d0 ''meanings'' = Inr ms" using truthy_getProp by blast
    show ?thesis
    proof (cases "truthy ms")
      case False
      with True d0 t0 ms show ?thesis by (simp add: firstMeaning_def bind_exn_def)
    next
      case t1: True
      then obtain m0 where m0: "getIndex0 ms = Inr m0" using truthy_getIndex0 by blast
      with True d0 t0 ms t1 show ?thesis by (simp add: firstMeaning_def bind_exn_def)
    qed
  qed
qed

lemma normalizePos_range:
  "normalizePos t \<in> set [''noun'', ''verb'', ''adjective'', ''adverb'', ''unknown'']"
  by (simp add: normalizePos_def)

lemma normalizePos_JStr:
  "normalizePos (JStr p) =
     (if p \<in> set [''noun'', ''verb'', ''adjective'', ''adverb''] then p else ''unknown'')"
  by (simp add: normalizePos_def)

lemma getWordPosDirectly_try_range:
  "getWordPosDirectly_try data word s = Inr (Some p, s1) \<Longrightarrow>
     p \<in> set [''noun'', ''verb'', ''adjective'', ''adverb'', ''unknown'']"
  using normalizePos_range
  by (auto simp: getWordPosDirectly_try_def Let_def split: sum.splits option.splits)

lemma getWordPosDirectly_range:
  "fst (getWordPosDirectly dict word s) \<in>
     set [''noun'', ''verb'', ''adjective'', ''adverb'', ''unknown'']"
proof (cases "dict word")
  case Rejected
  then show ?thesis by (simp add: getWordPosDirectly_def)
next
  case (Resolved data)
  show ?thesis
  proof (cases "getWordPosDirectly_try data word s")
    case (Inl ex)
    with Resolved show ?thesis by (cases ex) (simp add: getWordPosDirectly_def)
  next
    case (Inr r)
    obtain po s1 where r: "r = (po, s1)" by (cases r)
    show ?thesis
    proof (cases po)
      case None
      with Resolved Inr r show ?thesis by (simp add: getWordPosDirectly_def)
    next
      case (Some p)
      with Inr r have "getWordPosDirectly_try data word s = Inr (Some p, s1)" by simp
      from getWordPosDirectly_try_range [OF this] Resolved Inr r Some
      show ?thesis by (simp add: getWordPosDirectly_def)
    qed
  qed
qed

lemma firstMeaning_entry:
  assumes "lookupProp entry ''meanings'' = JArr (JObj meaning # ms)"
  shows "firstMeaning (JArr (JObj entry # es)) = Inr (Some (JObj meaning))"
  using assms by (simp add: firstMeaning_def bind_exn_def truthy_def)

lemma firstMeaning_absent:
  "lookupProp kvs ''0'' = Undefined \<Longrightarrow> firstMeaning (JObj kvs) = Inr None"
  by (simp add: firstMeaning_def bind_exn_def truthy_def)

lemma getIndex0_at0: "getIndex0 v = (if nullish v then Inl TypeError else Inr (at0 v))"
  by (cases v rule: at0.cases) (simp_all add: nullish_def)

lemma getProp_field: "getProp v k = (if nullish v then Inl TypeError else Inr (field v k))"
  by (cases v) (simp_all add: nullish_def)

lemma truthy_not_nullish: "truthy v \<Longrightarrow> \<not> nullish v"
  by (auto simp: truthy_def nullish_def)

lemma firstMeaning_at0:
  "firstMeaning data =
     Inr (if truthy data \<and> truthy (at0 data) \<and> truthy (field (at0 data) ''meanings'') \<and>
             truthy (at0 (field (at0 data) ''meanings''))
          then Some (at0 (field (at0 data) ''meanings'')) else None)"
  by (simp add: firstMeaning_def bind_exn_def getIndex0_at0 getProp_field truthy_not_nullish)

lemma firstDefinition_field:
  "firstDefinition m0 =
     (if nullish m0 \<or> nullish (field m0 ''definitions'') \<or>
         nullish (at0 (field m0 ''definitions''))
      then Inl TypeError
      else Inr (field (at0 (field m0 ''definitions'')) ''definition''))"
  by (simp add: firstDefinition_def bind_exn_def getIndex0_at0 getProp_field)

lemma getWordPosDirectly_classify: "fst (getWordPosDirectly dict word s) = classify dict word"
proof (cases "dict word")
  case Rejected
  then show ?thesis by (simp add: getWordPosDirectly_def classify_def)
next
  case (Resolved data)
  then show ?thesis
    by (simp add: getWordPosDirectly_def classify_def classified_def getWordPosDirectly_try_def
        firstMeaning_at0 firstDefinition_field getProp_field truthy_not_nullish Let_def)
qed

lemma classify_range:
  "classify dict word \<in> set [''noun'', ''verb'', ''adjective'', ''adverb'', ''unknown'']"
  using getWordPosDirectly_range [of dict word undefined]
  by (simp only: getWordPosDirectly_classify)

text \<open>
  Claim C5, as amended.  \<open>getWordPosDirectly\<close> returns for every answer of the service,
  and what it returns is the classification of the answer: always one of the five
  categories; \<open>unknown\<close> when the request is rejected, when the answer has no first
  entry with a first meaning, and when the first element of that meaning's definitions
  is \<^verbatim>\<open>undefined\<close> or \<^verbatim>\<open>null\<close> (the exception raised inside the \<^verbatim>\<open>try\<close> block is
  caught); in every other case the tag of the first meaning if it is exactly one of
  \<open>noun\<close>, \<open>verb\<close>, \<open>adjective\<close>, \<open>adverb\<close>, and \<open>unknown\<close> for any other or absent tag.
  Whether the first definition carries a definition text plays no part.
\<close>

theorem getWordPosDirectly_classifies:
  "fst (getWordPosDirectly dict word s) = classify dict word \<and>
   classify dict word \<in> set [''noun'', ''verb'', ''adjective'', ''adverb'', ''unknown''] \<and>
   (dict word = Rejected \<longrightarrow> classify dict word = ''unknown'') \<and>
   (\<forall>data. dict word = Resolved data \<and>
      (\<not> truthy data \<or> \<not> truthy (at0 data) \<or> \<not> truthy (field (at0 data) ''meanings'') \<or>
       \<not> truthy (at0 (field (at0 data) ''meanings''))) \<longrightarrow>
      classify dict word = ''unknown'') \<and>
   (\<forall>data. dict word = Resolved data \<and>
      (nullish (field (at0 (field (at0 data) ''meanings'')) ''definitions'') \<or>
       nullish (at0 (field (at0 (field (at0 data) ''meanings'')) ''definitions''))) \<longrightarrow>
      classify dict word = ''unknown'') \<and>
   (dict word = Resolved (JArr (JObj entry # es)) \<and>
    lookupProp entry ''meanings'' = JArr (JObj meaning # ms) \<and>
    lookupProp meaning ''definitions'' = JArr (d # ds) \<and> \<not> nullish d \<longrightarrow>
      classify dict word = normalizePos (lookupProp meaning ''partOfSpeech'') \<and>
      (\<forall>p. lookupProp meaning ''partOfSpeech'' = JStr p \<longrightarrow>
         classify dict word =
           (if p \<in> set [''noun'', ''verb'', ''adjective'', ''adverb''] then p else ''unknown'')) \<and>
      (lookupProp meaning ''partOfSpeech'' = Undefined \<longrightarrow>
         classify dict word = ''unknown''))"
proof (intro conjI allI impI)
  show "fst (getWordPosDirectly dict word s) = classify dict word"
    by (rule getWordPosDirectly_classify)
  show "classify dict word \<in> set [''noun'', ''verb'', ''adjective'', ''adverb'', ''unknown'']"
    by (rule classify_range)
next
  assume "dict word = Rejected"
  then show "classify dict word = ''unknown''" by (simp add: classify_def)
next
  fix data
  assume "dict word = Resolved data \<and>
      (\<not> truthy data \<or> \<not> truthy (at0 data) \<or> \<not> truthy (field (at0 data) ''meanings'') \<or>
       \<not> truthy (at0 (field (at0 data) ''meanings'')))"
  then show "classify dict word = ''unknown''"
    by (auto simp: classify_def classified_def Let_def)
next
  fix data
  assume "dict word = Resolved data \<and>
      (nullish (field (at0 (field (at0 data) ''meanings'')) ''definitions'') \<or>
       nullish (at0 (field (at0 (field (at0 data) ''meanings'')) ''definitions'')))"
  then show "classify dict word = ''unknown''"
    by (auto simp: classify_def classified_def Let_def)
next
  assume a: "dict word = Resolved (JArr (JObj entry # es)) \<and>
    lookupProp entry ''meanings'' = JArr (JObj meaning # ms) \<and>
    lookupProp meaning ''definitions'' = JArr (d # ds) \<and> \<not> nullish d"
  then show r: "classify dict word = normalizePos (lookupProp meaning ''partOfSpeech'')"
    by (simp add: classify_def classified_def Let_def truthy_def nullish_def)
  show "classify dict word =
           (if p \<in> set [''noun'', ''verb'', ''adjective'', ''adverb''] then p else ''unknown'')"
    if "lookupProp meaning ''partOfSpeech'' = JStr p" for p
    using r that by (auto simp: normalizePos_def)
  show "classify dict word = ''unknown''"
    if "lookupProp meaning ''partOfSpeech'' = Undefined"
    using r that by (simp add: normalizePos_def)
qed

text \<open>
  A rejected request, an answer without an entry, a well-formed answer for a noun, an
  answer whose meaning lacks the definitions, and one whose definitions are empty.
\<close>

theorem getWordPosDirectly_classifies_witness:
  "fst (getWordPosDirectly (\<lambda>w. Rejected) ''apple'' initialState) = ''unknown'' \<and>
   fst (getWordPosDirectly
          (\<lambda>w. Resolved (JObj [(''title'', JStr ''No Definitions Found'')]))
          ''apple'' initialState) = ''unknown'' \<and>
   fst (getWordPosDirectly
          (\<lambda>w. Resolved (JArr [JObj [(''word'', JStr ''apple''),
             (''meanings'', JArr [JObj [(''partOfSpeech'', JStr ''noun''),
                (''definitions'', JArr [JObj [(''definition'', JStr ''a fruit'')]])]])]]))
          ''apple'' initialState) = ''noun'' \<and>
   fst (getWordPosDirectly
          (\<lambda>w. Resolved (JArr [JObj [(''word'', JStr ''apple''),
             (''meanings'', JArr [JObj [(''partOfSpeech'', JStr ''noun'')]])]]))
          ''apple'' initialState) = ''unknown'' \<and>
   fst (getWordPosDirectly
          (\<lambda>w. Resolved (JArr [JObj [(''word'', JStr ''apple''),
             (''meanings'', JArr [JObj [(''partOfSpeech'', JStr ''noun''),
                (''definitions'', JArr [])]])]]))
          ''apple'' initialState) = ''unknown''"
proof -
  note t = getWordPosDirectly_classifies [where word = "''apple''" and s = initialState]
  have 1: "fst (getWordPosDirectly (\<lambda>w. Rejected) ''apple'' initialState) = ''unknown''"
    using t [of "\<lambda>w. Rejected"] by simp
  have 2: "fst (getWordPosDirectly
          (\<lambda>w. Resolved (JObj [(''title'', JStr ''No Definitions Found'')]))
          ''apple'' initialState) = ''unknown''"
    using t [of "\<lambda>w. Resolved (JObj [(''title'', JStr ''No Definitions Found'')])",
        THEN conjunct2, THEN conjunct2, THEN conjunct2, THEN conjunct1, THEN spec,
        of "JObj [(''title'', JStr ''No Definitions Found'')]"]
      t [of "\<lambda>w. Resolved (JObj [(''title'', JStr ''No Definitions Found'')])", THEN conjunct1]
    by (simp add: lookupProp_def truthy_def)
  have 3: "fst (getWordPosDirectly
          (\<lambda>w. Resolved (JArr [JObj [(''word'', JStr ''apple''),
             (''meanings'', JArr [JObj [(''partOfSpeech'', JStr ''noun''),
                (''definitions'', JArr [JObj [(''definition'', JStr ''a fruit'')]])]])]]))
          ''apple'' initialState) = ''noun''"
    using t [of "\<lambda>w. Resolved (JArr [JObj [(''word'', JStr ''apple''),
             (''meanings'', JArr [JObj [(''partOfSpeech'', JStr ''noun''),
                (''definitions'', JArr [JObj [(''definition'', JStr ''a fruit'')]])]])]])"
          "[(''word'', JStr ''apple''),
             (''meanings'', JArr [JObj [(''partOfSpeech'', JStr ''noun''),
                (''definitions'', JArr [JObj [(''definition'', JStr ''a fruit'')]])]])]" "[]"
          "[(''partOfSpeech'', JStr ''noun''),
                (''definitions'', JArr [JObj [(''definition'', JStr ''a fruit'')]])]" "[]"
          "JObj [(''definition'', JStr ''a fruit'')]" "[]"]
    by (simp add: lookupProp_def normalizePos_def nullish_def)
  have 4: "fst (getWordPosDirectly
          (\<lambda>w. Resolved (JArr [JObj [(''word'', JStr ''apple''),
             (''meanings'', JArr [JObj [(''partOfSpeech'', JStr ''noun'')]])]]))
          ''apple'' initialState) = ''unknown''"
    using t [of "\<lambda>w. Resolved (JArr [JObj [(''word'', JStr ''apple''),
             (''meanings'', JArr [JObj [(''partOfSpeech'', JStr ''noun'')]])]])",
        THEN conjunct2, THEN conjunct2, THEN conjunct2, THEN conjunct2, THEN conjunct1, THEN spec,
        of "JArr [JObj [(''word'', JStr ''apple''),
             (''meanings'', JArr [JObj [(''partOfSpeech'', JStr ''noun'')]])]]"]
      t [of "\<lambda>w. Resolved (JArr [JObj [(''word'', JStr ''apple''),
             (''meanings'', JArr [JObj [(''partOfSpeech'', JStr ''noun'')]])]])", THEN conjunct1]
    by (simp add: lookupProp_def nullish_def)
  have 5: "fst (getWordPosDirectly
          (\<lambda>w. Resolved (JArr [JObj [(''word'', JStr ''apple''),
             (''meanings'', JArr [JObj [(''partOfSpeech'', JStr ''noun''),
                (''definitions'', JArr [])]])]]))
          ''apple'' initialState) = ''unknown''"
    using t [of "\<lambda>w. Resolved (JArr [JObj [(''word'', JStr ''apple''),
             (''meanings'', JArr [JObj [(''partOfSpeech'', JStr ''noun''),
                (''definitions'', JArr [])]])]])",
        THEN conjunct2, THEN conjunct2, THEN conjunct2, THEN conjunct2, THEN conjunct1, THEN spec,
        of "JArr [JObj [(''word'', JStr ''apple''),
             (''meanings'', JArr [JObj [(''partOfSpeech'', JStr ''noun''),
                (''definitions'', JArr [])]])]]"]
      t [of "\<lambda>w. Resolved (JArr [JObj [(''word'', JStr ''apple''),
             (''meanings'', JArr [JObj [(''partOfSpeech'', JStr ''noun''),
                (''definitions'', JArr [])]])]])", THEN conjunct1]
    by (simp add: lookupProp_def nullish_def)
  from 1 2 3 4 5 show ?thesis by blast
qed

text \<open>
  Malformed answers that are not taken as \<open>unknown\<close>: the first definition has no
  definition text, or the definitions are a list of numbers or a text.  The tag of the
  meaning is returned.
\<close>

theorem getWordPosDirectly_malformed_counterexample:
  "fst (getWordPosDirectly
          (\<lambda>w. Resolved (JArr [JObj [(''word'', JStr ''apple''),
             (''meanings'', JArr [JObj [(''partOfSpeech'', JStr ''noun''),
                (''definitions'', JArr [JObj []])]])]]))
          ''apple'' initialState) = ''noun'' \<and>
   fst (getWordPosDirectly
          (\<lambda>w. Resolved (JArr [JObj [(''word'', JStr ''apple''),
             (''meanings'', JArr [JObj [(''partOfSpeech'', JStr ''noun''),
                (''definitions'', JArr [JNum (Finite 5)])]])]]))
          ''apple'' initialState) = ''noun'' \<and>
   fst (getWordPosDirectly
          (\<lambda>w. Resolved (JArr [JObj [(''word'', JStr ''apple''),
             (''meanings'', JArr [JObj [(''partOfSpeech'', JStr ''noun''),
                (''definitions'', JStr ''none'')]])]]))
          ''apple'' initialState) = ''noun''"
  by (simp add: getWordPosDirectly_def getWordPosDirectly_try_def firstMeaning_def
      firstDefinition_def bind_exn_def truthy_def lookupProp_def normalizePos_def Let_def)

subsection \<open>The cache of parts of speech\<close>

lemma Map_has_Map_set: "Map_has (Map_set m k v) k' \<longleftrightarrow> k' = k \<or> Map_has m k'"
  using keys_Map_set [of m k v] by (auto simp: Map_has_def)

lemma Map_get_Map_set: "Map_get (Map_set m k v) k' = (if k' = k then Some v else Map_get m k')"
  by (simp add: Map_get_def map_of_Map_set)

lemma Map_has_get: "Map_has m k \<longleftrightarrow> Map_get m k \<noteq> None"
  by (simp add: Map_has_def Map_get_def map_of_eq_None_iff)

lemma fetchWordData_absent:
  assumes "dict word = Resolved data" and "firstMeaning data = Inr None"
  shows "fetchWordData dict word s = s"
  using assms by (simp add: fetchWordData_def fetchWordData_try_def)

text \<open>
  The background fetch never removes an entry of the cache, and a rejected request
  stores \<open>unknown\<close>.
\<close>

lemma updateModelPos_wordPos:
  "updateModelPos i k p s = Inr s' \<Longrightarrow> wordPos s' = wordPos s"
  "updateModelPos i k p s = Inl (e, s') \<Longrightarrow> wordPos s' = wordPos s"
  by (auto simp: updateModelPos_def split: option.splits)

lemma fetchWordData_try_keeps_entries:
  "fetchWordData_try data word s = Inr s' \<Longrightarrow> Map_has (wordPos s) k \<Longrightarrow> Map_has (wordPos s') k"
  "fetchWordData_try data word s = Inl (e, s') \<Longrightarrow> Map_has (wordPos s) k \<Longrightarrow> Map_has (wordPos s') k"
  by (auto simp: fetchWordData_try_def Let_def Map_has_Map_set
      dest!: updateModelPos_wordPos split: sum.splits option.splits if_splits)

lemma fetchWordData_keeps_entries:
  "Map_has (wordPos s) k \<Longrightarrow> Map_has (wordPos (fetchWordData dict word s)) k"
  by (auto simp: fetchWordData_def Map_has_Map_set
      dest: fetchWordData_try_keeps_entries split: fetch_result.splits sum.splits)

lemma fetchWordData_rejected_cached:
  "dict word = Rejected \<Longrightarrow>
     Map_get (wordPos (fetchWordData dict word s)) (toLowerCase word) = Some ''unknown''"
  by (simp add: fetchWordData_def Map_get_Map_set)

section \<open>Properties of the handlers\<close>

subsection \<open>Removing a paragraph\<close>

text \<open>
  Claim C9.  When a paragraph with the identifier exists, \<open>removeParagraph\<close> removes from
  the highlighted words exactly the words recorded for the first such paragraph (the
  others stay, in their order), removes the paragraph record and keeps every record with
  another identifier, clears the active and the expanded selection exactly when they
  name this identifier, and changes nothing else: the models, the active model, the
  cache of parts of speech and the definitions are the same.  Without such a paragraph
  the state is unchanged.
\<close>

theorem removeParagraph_frame:
  "(find (\<lambda>q. para_id q = pid) (savedParagraphs s) = Some p \<longrightarrow>
      removeParagraph pid s =
        s\<lparr>highlightedWords := filter (\<lambda>w. w \<notin> set (para_words p)) (highlightedWords s),
          savedParagraphs := filter (\<lambda>q. para_id q \<noteq> pid) (savedParagraphs s),
          activeParagraphId :=
            (if activeParagraphId s = Some pid then None else activeParagraphId s),
          expandedParagraphId :=
            (if expandedParagraphId s = Some pid then None else expandedParagraphId s)\<rparr> \<and>
      set (highlightedWords (removeParagraph pid s)) =
        set (highlightedWords s) - set (para_words p) \<and>
      set (savedParagraphs (removeParagraph pid s)) =
        {q \<in> set (savedParagraphs s). para_id q \<noteq> pid} \<and>
      models (removeParagraph pid s) = models s \<and>
      activeModelIndex (removeParagraph pid s) = activeModelIndex s \<and>
      wordPos (removeParagraph pid s) = wordPos s \<and>
      wordMeanings (removeParagraph pid s) = wordMeanings s) \<and>
   (find (\<lambda>q. para_id q = pid) (savedParagraphs s) = None \<longrightarrow> removeParagraph pid s = s)"
  by (auto simp: removeParagraph_def)

text \<open>Two paragraphs, the first one active and removed; and an unknown identifier.\<close>

theorem removeParagraph_frame_witness:
  "find (\<lambda>q. para_id q = ''p1'')
     [\<lparr>para_id = ''p1'', para_text = ''a c'', para_words = [''a'', ''c'']\<rparr>,
      \<lparr>para_id = ''p2'', para_text = ''b'', para_words = [''b'']\<rparr>] =
     Some \<lparr>para_id = ''p1'', para_text = ''a c'', para_words = [''a'', ''c'']\<rparr> \<and>
   removeParagraph ''p1''
     (initialState\<lparr>highlightedWords := [''a'', ''b'', ''c'', ''d''],
        savedParagraphs :=
          [\<lparr>para_id = ''p1'', para_text = ''a c'', para_words = [''a'', ''c'']\<rparr>,
           \<lparr>para_id = ''p2'', para_text = ''b'', para_words = [''b'']\<rparr>],
        activeParagraphId := Some ''p1'', expandedParagraphId := Some ''p2''\<rparr>) =
     initialState\<lparr>highlightedWords := [''b'', ''d''],
        savedParagraphs := [\<lparr>para_id = ''p2'', para_text = ''b'', para_words = [''b'']\<rparr>],
        activeParagraphId := None, expandedParagraphId := Some ''p2''\<rparr> \<and>
   removeParagraph ''p3'' initialState = initialState"
  using removeParagraph_frame [of "''p1''"
      "initialState\<lparr>highlightedWords := [''a'', ''b'', ''c'', ''d''],
        savedParagraphs :=
          [\<lparr>para_id = ''p1'', para_text = ''a c'', para_words = [''a'', ''c'']\<rparr>,
           \<lparr>para_id = ''p2'', para_text = ''b'', para_words = [''b'']\<rparr>],
        activeParagraphId := Some ''p1'', expandedParagraphId := Some ''p2''\<rparr>"
      "\<lparr>para_id = ''p1'', para_text = ''a c'', para_words = [''a'', ''c'']\<rparr>"]
    removeParagraph_frame [of "''p3''" initialState]
  by (simp add: initialState_def)

subsection \<open>The highlighted words when the active model changes\<close>

lemma applyCachedPos_keys: "map fst (applyCachedPos m entry) = map fst m"
proof -
  have k: "map_of m k = Some e \<Longrightarrow> map fst (Map_set m k v) = map fst m" for m :: "(string \<times> WordEmbedding) list" and k e v
    by (induction m k v rule: Map_set.induct) (auto split: if_splits)
  show ?thesis
    by (cases entry) (auto simp: applyCachedPos_def Map_get_def k split: option.splits)
qed

lemma foldl_applyCachedPos_keys: "map fst (foldl applyCachedPos m wp) = map fst m"
  by (induction wp arbitrary: m) (simp_all add: applyCachedPos_keys)

lemma models_at_update:
  "models_at ms i = Some m \<Longrightarrow> models_at (ms[nat i := m']) i = Some m'"
  by (auto simp: models_at_def split: if_splits)

lemma selectModel_invariant:
  assumes "selectModel index s = Inr s'" and "index \<noteq> activeModelIndex s"
  shows "highlightInvariant s'"
proof -
  from assms obtain newModel where nm: "models_at (models s) index = Some newModel"
    by (auto simp: selectModel_def split: option.splits)
  let ?m' = "newModel\<lparr>embeddings := foldl applyCachedPos (embeddings newModel) (wordPos s)\<rparr>"
  from assms nm have s': "s' = s\<lparr>models := (models s)[nat index := ?m'],
        activeModelIndex := index,
        highlightedWords := filter (\<lambda>word. Map_has (embeddings newModel) word) (highlightedWords s),
        error := NoNotice, success := NoNotice\<rparr>"
    by (simp add: selectModel_def Let_def)
  have "Map_has (embeddings ?m') w = Map_has (embeddings newModel) w" for w
    by (simp add: Map_has_def foldl_applyCachedPos_keys)
  then show ?thesis
    unfolding highlightInvariant_def s'
    by (simp add: models_at_update [OF nm] list_all_iff)
qed

text \<open>
  Claim C2 at the input where the code departs from it.  A model with the word \<open>apple\<close>
  is loaded and the word is added: the invariant holds.  Then a second model, with the
  word \<open>dog\<close> only, is loaded.  It becomes the active model, but \<open>handleFileUpload\<close>
  does not touch the highlighted words: \<open>apple\<close> is still highlighted and is not a word
  of the active model.  (\<open>selectModel\<close> filters the highlighted words, see
  \<open>selectModel_invariant\<close>.)
\<close>

theorem load_keeps_foreign_highlights:
  "(case handleSearch (\<lambda>w. Rejected)
           ((handleFileUpload (Some (''a.csv'', Complete [[''0.1'', ''0.2'', ''apple'']]))
               initialState)\<lparr>searchWord := ''apple''\<rparr>) of
      Inl ex \<Rightarrow> False
    | Inr s2 \<Rightarrow>
        highlightInvariant s2 \<and>
        highlightedWords
          (handleFileUpload (Some (''b.csv'', Complete [[''0.3'', ''0.4'', ''dog'']])) s2) =
          [''apple''] \<and>
        activeModelIndex
          (handleFileUpload (Some (''b.csv'', Complete [[''0.3'', ''0.4'', ''dog'']])) s2) = 1 \<and>
        map (\<lambda>m. map fst (embeddings m))
          (models (handleFileUpload (Some (''b.csv'', Complete [[''0.3'', ''0.4'', ''dog'']])) s2)) =
          [[''apple''], [''dog'']] \<and>
        \<not> highlightInvariant
          (handleFileUpload (Some (''b.csv'', Complete [[''0.3'', ''0.4'', ''dog'']])) s2))"
  by (simp add: handleSearch_def handleSearch_classify_def getWordPosDirectly_def
      updateModelPos_def models_at_def highlightInvariant_def
      handleFileUpload_def parseComplete_def processRows_def processRow_def
      initialState_def Map_size_def Map_get_def Map_has_def string_eval number_eval Let_def)

subsection \<open>Adding a word\<close>

lemma toLowerChar_idem: "toLowerChar (toLowerChar c) = toLowerChar c"
  by (simp add: toLowerChar_def)

lemma toLowerCase_idem: "toLowerCase (toLowerCase s) = toLowerCase s"
  by (simp add: toLowerCase_def toLowerChar_idem)

lemma getWordPosDirectly_try_frame:
  "getWordPosDirectly_try data w s = Inl (e, s1) \<Longrightarrow> s1\<lparr>wordMeanings := wordMeanings s\<rparr> = s"
  "getWordPosDirectly_try data w s = Inr (r, s1) \<Longrightarrow> s1\<lparr>wordMeanings := wordMeanings s\<rparr> = s"
  by (auto simp: getWordPosDirectly_try_def Let_def split: sum.splits option.splits)

lemma getWordPosDirectly_frame':
  "(snd (getWordPosDirectly dict w s))\<lparr>wordMeanings := wordMeanings s\<rparr> = s"
  by (auto simp: getWordPosDirectly_def getWordPosDirectly_try_frame
      split: fetch_result.splits sum.splits option.splits prod.splits)

lemma getWordPosDirectly_frame:
  "\<exists>mm. snd (getWordPosDirectly dict w s) = s\<lparr>wordMeanings := mm\<rparr>"
proof -
  let ?s1 = "snd (getWordPosDirectly dict w s)"
  have "?s1 = (?s1\<lparr>wordMeanings := wordMeanings s\<rparr>)\<lparr>wordMeanings := wordMeanings ?s1\<rparr>"
    by simp
  also have "\<dots> = s\<lparr>wordMeanings := wordMeanings ?s1\<rparr>"
    by (simp only: getWordPosDirectly_frame')
  finally show ?thesis by blast
qed

lemma Map_set_keys_present:
  "map_of m k = Some e \<Longrightarrow> map fst (Map_set m k v) = map fst m"
  by (induction m k v rule: Map_set.induct) (auto split: if_splits)

lemma updateModelPos_valid:
  assumes "models_at (models s) i = Some m"
  shows "\<exists>m'. updateModelPos i k p s = Inr (s\<lparr>models := (models s)[nat i := m']\<rparr>) \<and>
           map fst (embeddings m') = map fst (embeddings m)"
proof (cases "Map_get (embeddings m) k")
  case None
  from assms have "(models s)[nat i := m] = models s"
    by (auto simp: models_at_def split: if_splits)
  then have "s\<lparr>models := (models s)[nat i := m]\<rparr> = s" by simp
  with assms None show ?thesis
    by (intro exI [of _ m]) (simp add: updateModelPos_def)
next
  case (Some e)
  then have "map fst (Map_set (embeddings m) k (e\<lparr>we_pos := Some p\<rparr>)) = map fst (embeddings m)"
    by (simp add: Map_get_def Map_set_keys_present)
  with assms Some show ?thesis
    by (intro exI [of _ "m\<lparr>embeddings := Map_set (embeddings m) k (e\<lparr>we_pos := Some p\<rparr>)\<rparr>"])
      (simp add: updateModelPos_def)
qed

lemma handleSearch_classify_valid:
  assumes "models_at (models s) (activeModelIndex s) = Some m"
  shows "\<exists>mm m'. handleSearch_classify dict w s =
           s\<lparr>wordMeanings := mm,
             wordPos := Map_set (wordPos s) (toLowerCase w) (fst (getWordPosDirectly dict w s)),
             models := (models s)[nat (activeModelIndex s) := m']\<rparr> \<and>
           map fst (embeddings m') = map fst (embeddings m)"
proof -
  obtain pos s1 where g: "getWordPosDirectly dict w s = (pos, s1)"
    by (cases "getWordPosDirectly dict w s")
  with getWordPosDirectly_frame [of dict w s] obtain mm where s1: "s1 = s\<lparr>wordMeanings := mm\<rparr>"
    by auto
  let ?s2 = "s1\<lparr>wordPos := Map_set (wordPos s1) (toLowerCase w) pos\<rparr>"
  have "models_at (models ?s2) (activeModelIndex s) = Some m"
    using assms by (simp add: s1)
  from updateModelPos_valid [OF this, of w pos] obtain m' where
    u: "updateModelPos (activeModelIndex s) w pos ?s2 =
          Inr (?s2\<lparr>models := (models ?s2)[nat (activeModelIndex s) := m']\<rparr>)"
    and k: "map fst (embeddings m') = map fst (embeddings m)" by blast
  have "handleSearch_classify dict w s = ?s2\<lparr>models := (models ?s2)[nat (activeModelIndex s) := m']\<rparr>"
    by (simp add: handleSearch_classify_def g u Let_def)
  then show ?thesis using k g by (intro exI [of _ mm] exI [of _ m']) (simp add: s1)
qed

lemma getWordPosDirectly_fst_state:
  "fst (getWordPosDirectly dict w s) = fst (getWordPosDirectly dict w s')"
  by (auto simp: getWordPosDirectly_def getWordPosDirectly_try_def Let_def
      split: fetch_result.splits sum.splits option.splits)

lemma handleSearch_add:
  assumes w: "w = toLowerCase (trim (searchWord s))" and ne: "w \<noteq> []"
    and act: "activeModelIndex s \<noteq> - 1"
    and m: "models_at (models s) (activeModelIndex s) = Some m"
    and has: "Map_has (embeddings m) w" and new: "w \<notin> set (highlightedWords s)"
  shows "\<exists>mm m'. handleSearch dict s =
           Inr (s\<lparr>wordMeanings := mm,
                  wordPos := (if Map_has (wordPos s) w then wordPos s
                              else Map_set (wordPos s) w (fst (getWordPosDirectly dict w s))),
                  models := (models s)[nat (activeModelIndex s) := m'],
                  highlightedWords := highlightedWords s @ [w],
                  success := AddedWord w, error := NoNotice, isLoading := False,
                  searchWord := []\<rparr>) \<and>
           map fst (embeddings m') = map fst (embeddings m)"
proof (cases "Map_has (wordPos s) w")
  case True
  from m have "(models s)[nat (activeModelIndex s) := m] = models s"
    by (auto simp: models_at_def split: if_splits)
  then have "s\<lparr>models := (models s)[nat (activeModelIndex s) := m]\<rparr> = s" by simp
  then have "handleSearch dict s =
           Inr (s\<lparr>wordMeanings := wordMeanings s,
                  wordPos := wordPos s,
                  models := (models s)[nat (activeModelIndex s) := m],
                  highlightedWords := highlightedWords s @ [w],
                  success := AddedWord w, error := NoNotice, isLoading := False,
                  searchWord := []\<rparr>)"
    using w ne act m has new True
    by (simp add: handleSearch_def Let_def)
  with True show ?thesis by (intro exI [of _ "wordMeanings s"] exI [of _ m]) simp
next
  case False
  let ?s1 = "s\<lparr>isLoading := True\<rparr>"
  have m1: "models_at (models ?s1) (activeModelIndex ?s1) = Some m" using m by simp
  have lw: "toLowerCase w = w" by (simp add: w toLowerCase_idem)
  from handleSearch_classify_valid [OF m1, of dict w] obtain mm m' where
    c: "handleSearch_classify dict w ?s1 =
          ?s1\<lparr>wordMeanings := mm,
             wordPos := Map_set (wordPos ?s1) (toLowerCase w) (fst (getWordPosDirectly dict w ?s1)),
             models := (models ?s1)[nat (activeModelIndex ?s1) := m']\<rparr>"
    and k: "map fst (embeddings m') = map fst (embeddings m)" by blast
  have p: "fst (getWordPosDirectly dict w ?s1) = fst (getWordPosDirectly dict w s)"
    by (rule getWordPosDirectly_fst_state)
  have "handleSearch dict s =
           Inr (s\<lparr>wordMeanings := mm,
                  wordPos := Map_set (wordPos s) w (fst (getWordPosDirectly dict w s)),
                  models := (models s)[nat (activeModelIndex s) := m'],
                  highlightedWords := highlightedWords s @ [w],
                  success := AddedWord w, error := NoNotice, isLoading := False,
                  searchWord := []\<rparr>)"
    using ne act m has new False
    unfolding handleSearch_def w [symmetric] Let_def
    by (simp add: c p lw)
  with False k show ?thesis by (intro exI [of _ mm] exI [of _ m']) simp
qed

text \<open>
  Claim C7, as amended.  For a search word that is not blank, with \<open>w\<close> its trimmed and
  lower-cased form, \<open>handleSearch\<close> reports \<open>NoActiveModel\<close> when no model is selected;
  else \<open>WordNotFound\<close> when \<open>w\<close> is not a key of the active model; else
  \<open>AlreadyHighlighted\<close> when \<open>w\<close> is highlighted, and the highlighted words are
  unchanged; otherwise it appends \<open>w\<close> to the highlighted words, with the cache unchanged
  when it has \<open>w\<close> and with the result of the classification stored under \<open>w\<close> when
  it has not.  Searching the same word again right after is answered by
  \<open>AlreadyHighlighted\<close> and leaves the highlighted words as they are.
\<close>

theorem addWord_error_order:
  assumes w: "w = toLowerCase (trim (searchWord s))" and ne: "w \<noteq> []"
  shows
    "(activeModelIndex s = - 1 \<longrightarrow>
        handleSearch dict s = Inr (s\<lparr>error := NoActiveModel, success := NoNotice\<rparr>)) \<and>
     (\<forall>m. activeModelIndex s \<noteq> - 1 \<and> models_at (models s) (activeModelIndex s) = Some m \<longrightarrow>
        (\<not> Map_has (embeddings m) w \<longrightarrow>
           handleSearch dict s = Inr (s\<lparr>error := WordNotFound w, success := NoNotice\<rparr>)) \<and>
        (Map_has (embeddings m) w \<and> w \<in> set (highlightedWords s) \<longrightarrow>
           handleSearch dict s =
             Inr (s\<lparr>error := AlreadyHighlighted w, success := NoNotice, searchWord := []\<rparr>)) \<and>
        (Map_has (embeddings m) w \<and> w \<notin> set (highlightedWords s) \<longrightarrow>
           (\<exists>s'. handleSearch dict s = Inr s' \<and>
                 highlightedWords s' = highlightedWords s @ [w] \<and>
                 error s' = NoNotice \<and> success s' = AddedWord w \<and>
                 (Map_has (wordPos s) w \<longrightarrow> wordPos s' = wordPos s) \<and>
                 (\<not> Map_has (wordPos s) w \<longrightarrow>
                    Map_get (wordPos s') w = Some (fst (getWordPosDirectly dict w s))) \<and>
                 (\<forall>dict2. \<exists>s''. handleSearch dict2 (s'\<lparr>searchWord := searchWord s\<rparr>) = Inr s'' \<and>
                    error s'' = AlreadyHighlighted w \<and>
                    highlightedWords s'' = highlightedWords s'))))"
proof (intro conjI allI impI)
  assume "activeModelIndex s = - 1"
  with w ne show "handleSearch dict s = Inr (s\<lparr>error := NoActiveModel, success := NoNotice\<rparr>)"
    by (simp add: handleSearch_def Let_def)
next
  fix m
  assume a: "activeModelIndex s \<noteq> - 1 \<and> models_at (models s) (activeModelIndex s) = Some m"
  show "handleSearch dict s = Inr (s\<lparr>error := WordNotFound w, success := NoNotice\<rparr>)"
    if "\<not> Map_has (embeddings m) w"
    using w ne a that by (simp add: handleSearch_def Let_def)
  show "handleSearch dict s =
      Inr (s\<lparr>error := AlreadyHighlighted w, success := NoNotice, searchWord := []\<rparr>)"
    if "Map_has (embeddings m) w \<and> w \<in> set (highlightedWords s)"
    using w ne a that by (simp add: handleSearch_def Let_def)
  show "\<exists>s'. handleSearch dict s = Inr s' \<and>
                 highlightedWords s' = highlightedWords s @ [w] \<and>
                 error s' = NoNotice \<and> success s' = AddedWord w \<and>
                 (Map_has (wordPos s) w \<longrightarrow> wordPos s' = wordPos s) \<and>
                 (\<not> Map_has (wordPos s) w \<longrightarrow>
                    Map_get (wordPos s') w = Some (fst (getWordPosDirectly dict w s))) \<and>
                 (\<forall>dict2. \<exists>s''. handleSearch dict2 (s'\<lparr>searchWord := searchWord s\<rparr>) = Inr s'' \<and>
                    error s'' = AlreadyHighlighted w \<and>
                    highlightedWords s'' = highlightedWords s')"
    if h: "Map_has (embeddings m) w \<and> w \<notin> set (highlightedWords s)"
  proof -
    from a h handleSearch_add [OF w ne, of m dict] obtain mm m' where
      r: "handleSearch dict s =
           Inr (s\<lparr>wordMeanings := mm,
                  wordPos := (if Map_has (wordPos s) w then wordPos s
                              else Map_set (wordPos s) w (fst (getWordPosDirectly dict w s))),
                  models := (models s)[nat (activeModelIndex s) := m'],
                  highlightedWords := highlightedWords s @ [w],
                  success := AddedWord w, error := NoNotice, isLoading := False,
                  searchWord := []\<rparr>)"
      and k: "map fst (embeddings m') = map fst (embeddings m)" by blast
    let ?s' = "s\<lparr>wordMeanings := mm,
                  wordPos := (if Map_has (wordPos s) w then wordPos s
                              else Map_set (wordPos s) w (fst (getWordPosDirectly dict w s))),
                  models := (models s)[nat (activeModelIndex s) := m'],
                  highlightedWords := highlightedWords s @ [w],
                  success := AddedWord w, error := NoNotice, isLoading := False,
                  searchWord := []\<rparr>"
    let ?t = "?s'\<lparr>searchWord := searchWord s\<rparr>"
    have m': "models_at (models ?t) (activeModelIndex ?t) = Some m'"
      using a by (simp add: models_at_update)
    have has': "Map_has (embeddings m') w" using h k by (simp add: Map_has_def)
    have again: "handleSearch dict2 ?t =
        Inr (?t\<lparr>error := AlreadyHighlighted w, success := NoNotice, searchWord := []\<rparr>)"
      for dict2
      using w ne a m' has' by (simp add: handleSearch_def Let_def)
    show ?thesis
    proof (rule exI [of _ ?s'], intro conjI allI)
      show "handleSearch dict s = Inr ?s'" by (rule r)
      show "\<exists>s''. handleSearch dict2 (?s'\<lparr>searchWord := searchWord s\<rparr>) = Inr s'' \<and>
                    error s'' = AlreadyHighlighted w \<and>
                    highlightedWords s'' = highlightedWords ?s'" for dict2
        using again [of dict2] by simp
    qed (simp_all add: Map_get_Map_set)
  qed
qed

text \<open>The word \<open>Apple\<close> typed with blanks around it, twice, the service being down.\<close>

theorem addWord_error_order_witness:
  "''apple'' = toLowerCase (trim '' Apple '') \<and> ''apple'' \<noteq> [] \<and>
   (\<exists>s'. handleSearch (\<lambda>w. Rejected)
            (initialState\<lparr>models := [\<lparr>model_name = ''a'', embeddings =
                [(''apple'', \<lparr>we_word = ''Apple'', we_x = Finite 1, we_y = Finite 2,
                              we_pos = None\<rparr>)]\<rparr>],
              activeModelIndex := 0, searchWord := '' Apple ''\<rparr>) = Inr s' \<and>
         highlightedWords s' = [''apple''] \<and>
         Map_get (wordPos s') ''apple'' = Some ''unknown'' \<and>
         (\<exists>s''. handleSearch (\<lambda>w. Rejected) (s'\<lparr>searchWord := '' Apple ''\<rparr>) = Inr s'' \<and>
                error s'' = AlreadyHighlighted ''apple'' \<and>
                highlightedWords s'' = [''apple'']))"
proof -
  let ?m = "\<lparr>model_name = ''a'', embeddings =
                [(''apple'', \<lparr>we_word = ''Apple'', we_x = Finite 1, we_y = Finite 2,
                              we_pos = None\<rparr>)]\<rparr>"
  let ?s = "initialState\<lparr>models := [?m], activeModelIndex := 0, searchWord := '' Apple ''\<rparr>"
  have w: "''apple'' = toLowerCase (trim (searchWord ?s))"
    by (simp add: string_eval)
  have w': "''apple'' = toLowerCase (trim '' Apple '')"
    by (simp add: string_eval)
  have ne: "''apple'' \<noteq> []" by simp
  note t = addWord_error_order [OF w ne, of "\<lambda>w. Rejected",
      THEN conjunct2, THEN spec, THEN mp, THEN conjunct2, THEN conjunct2, THEN mp]
  have "\<exists>s'. handleSearch (\<lambda>w. Rejected) ?s = Inr s' \<and>
                 highlightedWords s' = highlightedWords ?s @ [''apple''] \<and>
                 error s' = NoNotice \<and> success s' = AddedWord ''apple'' \<and>
                 (Map_has (wordPos ?s) ''apple'' \<longrightarrow> wordPos s' = wordPos ?s) \<and>
                 (\<not> Map_has (wordPos ?s) ''apple'' \<longrightarrow>
                    Map_get (wordPos s') ''apple'' =
                      Some (fst (getWordPosDirectly (\<lambda>w. Rejected) ''apple'' ?s))) \<and>
                 (\<forall>dict2. \<exists>s''. handleSearch dict2 (s'\<lparr>searchWord := searchWord ?s\<rparr>) = Inr s'' \<and>
                    error s'' = AlreadyHighlighted ''apple'' \<and>
                    highlightedWords s'' = highlightedWords s')"
    by (rule t [of ?m]) (simp_all add: models_at_def Map_has_def initialState_def)
  then obtain s' where
    r1: "handleSearch (\<lambda>w. Rejected) ?s = Inr s'"
    and r2: "highlightedWords s' = highlightedWords ?s @ [''apple'']"
    and r3: "\<not> Map_has (wordPos ?s) ''apple'' \<longrightarrow>
                    Map_get (wordPos s') ''apple'' =
                      Some (fst (getWordPosDirectly (\<lambda>w. Rejected) ''apple'' ?s))"
    and r4: "\<forall>dict2. \<exists>s''. handleSearch dict2 (s'\<lparr>searchWord := searchWord ?s\<rparr>) = Inr s'' \<and>
                    error s'' = AlreadyHighlighted ''apple'' \<and>
                    highlightedWords s'' = highlightedWords s'"
    by blast
  have h2: "highlightedWords s' = [''apple'']"
    using r2 by (simp add: initialState_def)
  have h3: "Map_get (wordPos s') ''apple'' = Some ''unknown''"
    using r3 by (simp add: initialState_def Map_has_def getWordPosDirectly_def)
  from r4 have "\<exists>s''. handleSearch (\<lambda>w. Rejected) (s'\<lparr>searchWord := searchWord ?s\<rparr>) = Inr s'' \<and>
                    error s'' = AlreadyHighlighted ''apple'' \<and>
                    highlightedWords s'' = highlightedWords s'"
    by blast
  then have h4: "\<exists>s''. handleSearch (\<lambda>w. Rejected) (s'\<lparr>searchWord := '' Apple ''\<rparr>) = Inr s'' \<and>
                error s'' = AlreadyHighlighted ''apple'' \<and>
                highlightedWords s'' = [''apple'']"
    by (simp add: h2)
  from w' ne r1 h2 h3 h4 show ?thesis by blast
qed

text \<open>
  A blank search word is ignored before any of the checks.  With an active model, whose
  vocabulary does not have the empty word, \<open>WordNotFound\<close> is not reported; with no
  model selected, \<open>NoActiveModel\<close> is not reported.  The state is unchanged.
\<close>

theorem addWord_blank_counterexample:
  "toLowerCase (trim '' '') = [] \<and>
   \<not> Map_has [(''apple'', \<lparr>we_word = ''Apple'', we_x = Finite 1, we_y = Finite 2,
                              we_pos = None\<rparr>)] [] \<and>
   handleSearch (\<lambda>w. Rejected)
     (initialState\<lparr>models := [\<lparr>model_name = ''a'', embeddings =
          [(''apple'', \<lparr>we_word = ''Apple'', we_x = Finite 1, we_y = Finite 2,
                        we_pos = None\<rparr>)]\<rparr>],
        activeModelIndex := 0, searchWord := '' ''\<rparr>) =
     Inr (initialState\<lparr>models := [\<lparr>model_name = ''a'', embeddings =
          [(''apple'', \<lparr>we_word = ''Apple'', we_x = Finite 1, we_y = Finite 2,
                        we_pos = None\<rparr>)]\<rparr>],
        activeModelIndex := 0, searchWord := '' ''\<rparr>) \<and>
   error (initialState\<lparr>models := [\<lparr>model_name = ''a'', embeddings =
          [(''apple'', \<lparr>we_word = ''Apple'', we_x = Finite 1, we_y = Finite 2,
                        we_pos = None\<rparr>)]\<rparr>],
        activeModelIndex := 0, searchWord := '' ''\<rparr>) = NoNotice \<and>
   activeModelIndex initialState = - 1 \<and>
   handleSearch (\<lambda>w. Rejected) initialState = Inr initialState \<and>
   error initialState = NoNotice"
  by (simp add: handleSearch_def initialState_def Map_has_def string_eval)

section \<open>Properties of the paragraph submission\<close>

subsection \<open>The chain of string operations yields the tokens\<close>

lemma split_splitBy: "split sep s = splitBy (\<lambda>c. c = sep) s"
  by (induction s) auto

lemma splitBy_nonempty: "splitBy P s \<noteq> []"
  by (induction s) (auto split: list.splits)

lemma splitBy_Cons_keep:
  "\<not> P c \<Longrightarrow> splitBy P (c # cs) = (c # hd (splitBy P cs)) # tl (splitBy P cs)"
  using splitBy_nonempty [of P cs] by (cases "splitBy P cs") auto

lemma splitBy_map: "splitBy P (map f s) = map (map f) (splitBy (\<lambda>c. P (f c)) s)"
  by (induction s) (auto simp: splitBy_nonempty split: list.splits)

lemma splitBy_pieces_all: "\<forall>w \<in> set (splitBy P s). \<forall>c \<in> set w. \<not> P c"
  by (induction s) (auto split: list.splits)

lemma splitBy_pieces: "w \<in> set (splitBy P s) \<Longrightarrow> c \<in> set w \<Longrightarrow> \<not> P c"
  using splitBy_pieces_all by blast

lemma splitBy_cong: "(\<And>c. c \<in> set s \<Longrightarrow> P c = Q c) \<Longrightarrow> splitBy P s = splitBy Q s"
  by (induction s) auto

lemma splitBy_snoc_sep: "P c \<Longrightarrow> splitBy P (s @ [c]) = splitBy P s @ [[]]"
  by (induction s) (auto simp: splitBy_nonempty split: list.splits)

lemma nonempty_pieces_hd_tl:
  "filter (\<lambda>w. w \<noteq> []) (splitBy P s) =
     filter (\<lambda>w. w \<noteq> []) [hd (splitBy P s)] @ filter (\<lambda>w. w \<noteq> []) (tl (splitBy P s))"
  using splitBy_nonempty [of P s] by (cases "splitBy P s") auto

lemma pieces_dropWhile:
  "(\<And>c. c \<in> set s \<Longrightarrow> W c \<Longrightarrow> P c) \<Longrightarrow>
   filter (\<lambda>w. w \<noteq> []) (splitBy P (dropWhile W s)) = filter (\<lambda>w. w \<noteq> []) (splitBy P s)"
  by (induction s) auto

lemma pieces_dropWhile_end:
  "(\<And>c. c \<in> set s \<Longrightarrow> W c \<Longrightarrow> P c) \<Longrightarrow>
   filter (\<lambda>w. w \<noteq> []) (splitBy P (rev (dropWhile W (rev s)))) =
   filter (\<lambda>w. w \<noteq> []) (splitBy P s)"
proof (induction s rule: rev_induct)
  case Nil
  show ?case by simp
next
  case (snoc c s)
  show ?case
  proof (cases "W c")
    case True
    with snoc.prems have "P c" by simp
    with True snoc show ?thesis by (simp add: splitBy_snoc_sep)
  next
    case False
    then show ?thesis by simp
  qed
qed

lemma pieces_trim:
  assumes "\<And>c. c \<in> set s \<Longrightarrow> isWhiteSpace c \<Longrightarrow> P c"
  shows "filter (\<lambda>w. w \<noteq> []) (splitBy P (trim s)) = filter (\<lambda>w. w \<noteq> []) (splitBy P s)"
proof -
  have "\<And>c. c \<in> set (dropWhile isWhiteSpace s) \<Longrightarrow> isWhiteSpace c \<Longrightarrow> P c"
    using assms set_dropWhileD by fastforce
  then have "filter (\<lambda>w. w \<noteq> []) (splitBy P (trim s)) =
      filter (\<lambda>w. w \<noteq> []) (splitBy P (dropWhile isWhiteSpace s))"
    unfolding trim_def by (rule pieces_dropWhile_end)
  also have "\<dots> = filter (\<lambda>w. w \<noteq> []) (splitBy P s)"
    using assms by (rule pieces_dropWhile)
  finally show ?thesis .
qed

lemma collapse_white:
  "c \<in> set (collapseWhiteSpace s) \<Longrightarrow> isWhiteSpace c \<Longrightarrow> c = CHR '' ''"
proof (induction s rule: collapseWhiteSpace.induct)
  case 1
  then show ?case by simp
next
  case (2 d ds)
  then show ?case by (auto split: if_splits)
qed

lemma space_white: "isWhiteSpace (CHR '' '')"
  by (simp add: isWhiteSpace_def)

lemma collapse_pieces:
  "hd (splitBy (\<lambda>c. c = CHR '' '') (collapseWhiteSpace s)) = hd (splitBy isWhiteSpace s) \<and>
   filter (\<lambda>w. w \<noteq> []) (tl (splitBy (\<lambda>c. c = CHR '' '') (collapseWhiteSpace s))) =
   filter (\<lambda>w. w \<noteq> []) (tl (splitBy isWhiteSpace s))"
proof (induction s rule: collapseWhiteSpace.induct)
  case 1
  show ?case by simp
next
  case (2 c cs)
  show ?case
  proof (cases "isWhiteSpace c")
    case True
    let ?X = "collapseWhiteSpace (dropWhile isWhiteSpace cs)"
    from 2(1) [OF True]
    have "filter (\<lambda>w. w \<noteq> []) (splitBy (\<lambda>c. c = CHR '' '') ?X) =
          filter (\<lambda>w. w \<noteq> []) (splitBy isWhiteSpace (dropWhile isWhiteSpace cs))"
      by (simp add: nonempty_pieces_hd_tl [of "\<lambda>c. c = CHR '' ''"]
          nonempty_pieces_hd_tl [of isWhiteSpace])
    also have "\<dots> = filter (\<lambda>w. w \<noteq> []) (splitBy isWhiteSpace cs)"
      by (rule pieces_dropWhile) simp
    finally show ?thesis using True by simp
  next
    case False
    then have ne: "c \<noteq> CHR '' ''" using space_white by auto
    from 2(2) [OF False] False ne show ?thesis
      by (simp add: splitBy_Cons_keep del: splitBy.simps)
  qed
qed

lemma collapse_nonempty_pieces:
  "filter (\<lambda>w. w \<noteq> []) (splitBy (\<lambda>c. c = CHR '' '') (collapseWhiteSpace s)) =
   filter (\<lambda>w. w \<noteq> []) (splitBy isWhiteSpace s)"
  using collapse_pieces [of s]
  by (simp add: nonempty_pieces_hd_tl [of "\<lambda>c. c = CHR '' ''"]
          nonempty_pieces_hd_tl [of isWhiteSpace])

lemma white_not_word: "isWhiteSpace c \<Longrightarrow> \<not> isWordChar c"
  by (auto simp: isWhiteSpace_def isWordChar_def)

lemma white_separator: "isWhiteSpace c \<Longrightarrow> isSeparator c"
  by (simp add: isSeparator_def white_not_word)

lemma white_toLowerChar: "isWhiteSpace (toLowerChar c) = isWhiteSpace c"
  by (auto simp: isWhiteSpace_def toLowerChar_def)

lemma toLowerCase_trim: "toLowerCase (trim s) = trim (toLowerCase s)"
  by (simp add: toLowerCase_def trim_def dropWhile_map rev_map comp_def white_toLowerChar)

lemma replacePunctuation_pieces:
  "filter (\<lambda>w. w \<noteq> []) (splitBy isWhiteSpace (replacePunctuation s)) = tokens s"
proof -
  let ?f = "\<lambda>c. if (\<not> isWordChar c \<and> \<not> isWhiteSpace c) \<or> c = CHR ''_'' then CHR '' '' else c"
  have sep: "isWhiteSpace (?f c) = isSeparator c" for c
    using white_not_word [of c] by (auto simp: isSeparator_def space_white)
  have keep: "\<not> isSeparator c \<Longrightarrow> ?f c = c" for c
    by (auto simp: isSeparator_def)
  have "splitBy isWhiteSpace (replacePunctuation s) = map (map ?f) (splitBy isSeparator s)"
    unfolding replacePunctuation_def splitBy_map sep ..
  also have "\<dots> = map (\<lambda>w. w) (splitBy isSeparator s)"
  proof (rule map_cong [OF refl])
    fix w assume w: "w \<in> set (splitBy isSeparator s)"
    have "map ?f w = map (\<lambda>c. c) w"
      by (rule map_cong [OF refl]) (use w splitBy_pieces keep in blast)
    then show "map ?f w = w" by simp
  qed
  finally show ?thesis by (simp add: tokens_def)
qed

lemma extractWords_tokens:
  "extractWords text = filter (\<lambda>w. \<not> list_ex isDigit w) (tokens (toLowerCase text))"
proof -
  let ?t = "replacePunctuation (toLowerCase text)"
  let ?Q = "\<lambda>c. c = CHR '' ''"
  have "filter (\<lambda>w. w \<noteq> []) (splitBy ?Q (trim (collapseWhiteSpace ?t))) =
        filter (\<lambda>w. w \<noteq> []) (splitBy ?Q (collapseWhiteSpace ?t))"
    by (rule pieces_trim) (rule collapse_white)
  also have "\<dots> = filter (\<lambda>w. w \<noteq> []) (splitBy isWhiteSpace ?t)"
    by (rule collapse_nonempty_pieces)
  also have "\<dots> = tokens (toLowerCase text)"
    by (rule replacePunctuation_pieces)
  finally have e: "filter (\<lambda>w. w \<noteq> []) (splitBy ?Q (trim (collapseWhiteSpace ?t))) =
      tokens (toLowerCase text)" .
  have "extractWords text =
      filter (\<lambda>w. \<not> list_ex isDigit w)
        (filter (\<lambda>w. w \<noteq> []) (splitBy ?Q (trim (collapseWhiteSpace ?t))))"
    by (simp add: extractWords_def split_splitBy hasDigit_def conj_commute)
  then show ?thesis by (simp only: e)
qed

lemma tokens_trim: "tokens (toLowerCase (trim s)) = tokens (toLowerCase s)"
  unfolding toLowerCase_trim tokens_def
  by (rule pieces_trim) (rule white_separator)

lemma firstSeen_set: "set a = set b \<Longrightarrow> firstSeen a xs = firstSeen b xs"
proof (induction xs arbitrary: a b)
  case Nil
  show ?case by simp
next
  case (Cons x xs)
  have m: "x \<in> set a \<longleftrightarrow> x \<in> set b" by (simp only: Cons.prems)
  have "set (x # a) = set (x # b)" by (simp only: list.set Cons.prems)
  then have 1: "firstSeen (x # a) xs = firstSeen (x # b) xs" by (rule Cons.IH)
  have 2: "firstSeen a xs = firstSeen b xs" using Cons.prems by (rule Cons.IH)
  show ?case by (simp only: firstSeen.simps m 1 2)
qed

lemma foldl_Set_add: "foldl Set_add acc xs = acc @ firstSeen acc xs"
proof (induction xs arbitrary: acc)
  case Nil
  show ?case by simp
next
  case (Cons x xs)
  have "firstSeen (acc @ [x]) xs = firstSeen (x # acc) xs"
    by (rule firstSeen_set) simp
  with Cons show ?case by (simp add: Set_add_def)
qed

lemma newSet_firstSeen: "newSet xs = firstSeen [] xs"
  by (simp add: newSet_def foldl_Set_add)

lemma firstSeen_props:
  "distinct (firstSeen seen xs) \<and> set (firstSeen seen xs) = set xs - set seen"
  by (induction xs arbitrary: seen) auto

lemma findWords_candidate:
  "findWords (Some m) (extractWords (trim p)) = Inr (candidateWords (embeddings m) p)"
  by (simp add: findWords_def candidateWords_def newSet_firstSeen extractWords_tokens tokens_trim)

lemma candidateWords_distinct: "distinct (candidateWords v p)"
  by (simp add: candidateWords_def firstSeen_props)

lemma splitBy_chars: "w \<in> set (splitBy P xs) \<Longrightarrow> set w \<subseteq> set xs"
proof (induction xs arbitrary: w)
  case Nil
  then show ?case by simp
next
  case (Cons c cs)
  show ?case
  proof (cases "P c")
    case True
    with Cons show ?thesis by auto
  next
    case False
    show ?thesis
    proof (cases "splitBy P cs")
      case Nil
      with Cons.prems False show ?thesis by simp
    next
      case (Cons v vs)
      with Cons.prems False have "w = c # v \<or> w \<in> set vs" by simp
      then show ?thesis
      proof
        assume "w = c # v"
        moreover have "set v \<subseteq> set cs" using Cons.IH [of v] Cons by simp
        ultimately show ?thesis by auto
      next
        assume "w \<in> set vs"
        then have "set w \<subseteq> set cs" using Cons.IH [of w] Cons by simp
        then show ?thesis by auto
      qed
    qed
  qed
qed

lemma candidateWords_lower: "w \<in> set (candidateWords v p) \<Longrightarrow> toLowerCase w = w"
proof -
  assume "w \<in> set (candidateWords v p)"
  then have "w \<in> set (splitBy isSeparator (toLowerCase p))"
    by (auto simp: candidateWords_def firstSeen_props tokens_def)
  then have "set w \<subseteq> set (toLowerCase p)" by (rule splitBy_chars)
  then have "\<forall>c\<in>set w. toLowerChar c = c"
    by (auto simp: toLowerCase_def toLowerChar_idem)
  then show ?thesis by (simp add: toLowerCase_def map_idI)
qed

subsection \<open>States that differ in the caches only\<close>

lemma cachesOnly_refl: "cachesOnly s s"
  by (simp add: cachesOnly_def)

lemma cachesOnly_trans: "cachesOnly s t \<Longrightarrow> cachesOnly t u \<Longrightarrow> cachesOnly s u"
proof -
  assume a: "cachesOnly s t" and b: "cachesOnly t u"
  have "u\<lparr>wordMeanings := wordMeanings s, wordPos := wordPos s, models := models s\<rparr> =
      (u\<lparr>wordMeanings := wordMeanings t, wordPos := wordPos t, models := models t\<rparr>)
        \<lparr>wordMeanings := wordMeanings s, wordPos := wordPos s, models := models s\<rparr>"
    by simp
  also have "\<dots> = t\<lparr>wordMeanings := wordMeanings s, wordPos := wordPos s, models := models s\<rparr>"
    using b by (simp only: cachesOnly_def)
  also have "\<dots> = s" using a by (simp only: cachesOnly_def)
  finally show ?thesis by (simp only: cachesOnly_def)
qed

lemma cachesOnly_fields:
  assumes "cachesOnly s t"
  shows "highlightedWords t = highlightedWords s" "savedParagraphs t = savedParagraphs s"
    "activeModelIndex t = activeModelIndex s" "activeParagraphId t = activeParagraphId s"
    "expandedParagraphId t = expandedParagraphId s" "searchWord t = searchWord s"
    "error t = error s" "success t = success s" "isLoading t = isLoading s"
    "paragraphInput t = paragraphInput s"
proof -
  from assms have e: "s = t\<lparr>wordMeanings := wordMeanings s, wordPos := wordPos s, models := models s\<rparr>"
    by (simp add: cachesOnly_def)
  show "highlightedWords t = highlightedWords s" using arg_cong [OF e, of highlightedWords] by simp
  show "savedParagraphs t = savedParagraphs s" using arg_cong [OF e, of savedParagraphs] by simp
  show "activeModelIndex t = activeModelIndex s" using arg_cong [OF e, of activeModelIndex] by simp
  show "activeParagraphId t = activeParagraphId s" using arg_cong [OF e, of activeParagraphId] by simp
  show "expandedParagraphId t = expandedParagraphId s" using arg_cong [OF e, of expandedParagraphId] by simp
  show "searchWord t = searchWord s" using arg_cong [OF e, of searchWord] by simp
  show "error t = error s" using arg_cong [OF e, of error] by simp
  show "success t = success s" using arg_cong [OF e, of success] by simp
  show "isLoading t = isLoading s" using arg_cong [OF e, of isLoading] by simp
  show "paragraphInput t = paragraphInput s" using arg_cong [OF e, of paragraphInput] by simp
qed

lemma countPos_fields:
  "pp_state (countPos p acc) = pp_state acc" "wordsToAdd (countPos p acc) = wordsToAdd acc"
  "trace (countPos p acc) = trace acc"
  by (simp_all add: countPos_def)

lemma getWordPosDirectly_cachesOnly: "cachesOnly s (snd (getWordPosDirectly dict w s))"
  using getWordPosDirectly_frame [of dict w s] by (auto simp: cachesOnly_def)

subsection \<open>Batches\<close>

declare chunks.simps [simp del] batchLoop.simps [simp del] runTasks.simps [simp del]

lemma chunks_Nil: "chunks n [] = []"
  by (simp add: chunks.simps)

lemma chunks_step: "0 < n \<Longrightarrow> xs \<noteq> [] \<Longrightarrow> chunks n xs = take n xs # chunks n (drop n xs)"
  by (subst chunks.simps) simp

lemma intersperse_Cons:
  "intersperse sep (b # bs) = b @ (if bs = [] then [] else sep @ intersperse sep bs)"
  by (cases bs) simp_all

lemma chunks_empty_iff: "0 < n \<Longrightarrow> chunks n xs = [] \<longleftrightarrow> xs = []"
  by (cases "xs = []") (simp_all add: chunks_Nil chunks_step)

lemma concat_chunks: "0 < n \<Longrightarrow> concat (chunks n xs) = xs"
proof (induction "length xs" arbitrary: xs rule: less_induct)
  case less
  show ?case
  proof (cases "xs = []")
    case True
    then show ?thesis by (simp add: chunks_Nil)
  next
    case False
    with less.prems have "length (drop n xs) < length xs" by simp
    from less.hyps [OF this less.prems] False less.prems show ?thesis
      by (simp add: chunks_step)
  qed
qed

lemma chunks_sizes:
  "0 < n \<Longrightarrow> b \<in> set (chunks n xs) \<Longrightarrow> b \<noteq> [] \<and> length b \<le> n"
proof (induction "length xs" arbitrary: xs rule: less_induct)
  case less
  show ?case
  proof (cases "xs = []")
    case True
    with less.prems show ?thesis by (simp add: chunks_Nil)
  next
    case False
    with less.prems have l: "length (drop n xs) < length xs" by simp
    from less.prems False have "b = take n xs \<or> b \<in> set (chunks n (drop n xs))"
      by (simp add: chunks_step)
    then show ?thesis
    proof
      assume "b = take n xs"
      with False less.prems show ?thesis by simp
    next
      assume "b \<in> set (chunks n (drop n xs))"
      with less.hyps [OF l less.prems(1)] show ?thesis by blast
    qed
  qed
qed

lemma chunks_full:
  "0 < n \<Longrightarrow> b \<in> set (butlast (chunks n xs)) \<Longrightarrow> length b = n"
proof (induction "length xs" arbitrary: xs rule: less_induct)
  case less
  show ?case
  proof (cases "xs = []")
    case True
    with less.prems show ?thesis by (simp add: chunks_Nil)
  next
    case False
    with less.prems have l: "length (drop n xs) < length xs" by simp
    show ?thesis
    proof (cases "drop n xs = []")
      case True
      with less.prems False show ?thesis by (simp add: chunks_step chunks_Nil)
    next
      case d: False
      then have ne: "chunks n (drop n xs) \<noteq> []"
        using less.prems(1) by (simp add: chunks_empty_iff)
      from d have "n < length xs" by simp
      then have t: "length (take n xs) = n" by simp
      from less.prems False ne have "b = take n xs \<or> b \<in> set (butlast (chunks n (drop n xs)))"
        by (simp add: chunks_step)
      then show ?thesis
      proof
        assume "b = take n xs"
        with t show ?thesis by simp
      next
        assume "b \<in> set (butlast (chunks n (drop n xs)))"
        with less.hyps [OF l less.prems(1)] show ?thesis by blast
      qed
    qed
  qed
qed

lemma length_chunks: "0 < n \<Longrightarrow> length (chunks n xs) = (length xs + n - 1) div n"
proof (induction "length xs" arbitrary: xs rule: less_induct)
  case less
  show ?case
  proof (cases "xs = []")
    case True
    with less.prems show ?thesis by (simp add: chunks_Nil)
  next
    case False
    with less.prems have l: "length (drop n xs) < length xs" by simp
    from False have pos: "0 < length xs" by simp
    have a: "(k + n - 1) div n = Suc ((k - 1) div n)" if "0 < k" for k :: nat
    proof -
      from that have "k + n - 1 = (k - 1) + n" by arith
      then have "(k + n - 1) div n = ((k - 1) + n) div n" by (rule arg_cong)
      also have "\<dots> = Suc ((k - 1) div n)" using less.prems by simp
      finally show ?thesis .
    qed
    have c: "chunks n xs = take n xs # chunks n (drop n xs)"
      using less.prems False by (rule chunks_step)
    show ?thesis
    proof (cases "n \<le> length xs")
      case True
      then have b: "length (drop n xs) + n - 1 = length xs - 1" by simp
      have "length (chunks n (drop n xs)) = (length (drop n xs) + n - 1) div n"
        using l less.prems by (rule less.hyps)
      then have "length (chunks n (drop n xs)) = (length xs - 1) div n"
        by (simp only: b)
      then show ?thesis by (simp only: c a [OF pos] list.size length_Cons)
    next
      case f: False
      then have d: "chunks n (drop n xs) = []" by (simp add: chunks_Nil)
      from f have "(length xs - 1) div n = 0" by simp
      then show ?thesis by (simp only: c d a [OF pos] list.size length_Cons)
    qed
  qed
qed

lemma map_filter_results:
  "List.map_filter (\<lambda>r. r) (map (\<lambda>w. if P w then None else Some w) xs) = filter (\<lambda>w. \<not> P w) xs"
  by (induction xs) (simp_all add: List.map_filter_simps)

lemma slice_take_drop: "slice xs i (i + n) = take n (drop i xs)"
  by (simp add: slice_def)

subsection \<open>The callbacks of a batch\<close>

lemma nth_split:
  assumes "i < length xs"
  obtains ys zs where "xs = ys @ xs ! i # zs" "take i xs @ drop (Suc i) xs = ys @ zs"
    "\<And>y. xs[i := y] = ys @ y # zs"
proof
  show "xs = take i xs @ xs ! i # drop (Suc i) xs" using assms by (rule id_take_nth_drop)
  show "take i xs @ drop (Suc i) xs = take i xs @ drop (Suc i) xs" ..
  show "xs[i := y] = take i xs @ y # drop (Suc i) xs" for y
    using assms by (rule upd_conv_take_nth_drop)
qed

lemma about_same: "about w e \<Longrightarrow> about w' e \<Longrightarrow> w = w'"
  by (auto simp: about_def)

lemma about_simps:
  "about w (Response w') \<longleftrightarrow> w = w'" "about w (Completed w') \<longleftrightarrow> w = w'"
  "about w (Request w') \<longleftrightarrow> w = w'" "\<not> about w (Delay n)"
  by (auto simp: about_def)


lemma getWordPosDirectly_meanings:
  "wordMeanings (snd (getWordPosDirectly dict w s)) = wordMeanings s \<and>
     fst (getWordPosDirectly dict w s) = ''unknown'' \<or>
   (\<exists>meaning. wordMeanings (snd (getWordPosDirectly dict w s)) =
      Map_set (wordMeanings s) (toLowerCase w) meaning)"
  by (auto simp: getWordPosDirectly_def getWordPosDirectly_try_def Let_def
      split: fetch_result.splits sum.splits option.splits)

lemma getWordPosDirectly_meanings_mono:
  "Map_has (wordMeanings s) k \<Longrightarrow> Map_has (wordMeanings (snd (getWordPosDirectly dict w s))) k"
  using getWordPosDirectly_meanings [of dict w s] by (auto simp: Map_has_Map_set)

lemma getWordPosDirectly_meanings_known:
  "fst (getWordPosDirectly dict w s) \<noteq> ''unknown'' \<Longrightarrow>
     Map_has (wordMeanings (snd (getWordPosDirectly dict w s))) (toLowerCase w)"
  using getWordPosDirectly_meanings [of dict w s] by (auto simp: Map_has_Map_set)

lemma resumeWord_valid:
  assumes v: "models_at (models (pp_state acc)) (activeModelIndex s0) = Some m"
  shows "\<exists>acc1 m'. resumeWord s0 acc w p = Inr acc1 \<and>
           trace acc1 = trace acc @ [Completed w] \<and>
           wordsToAdd acc1 = wordsToAdd acc \<and>
           wordPos (pp_state acc1) = Map_set (wordPos (pp_state acc)) (toLowerCase w) p \<and>
           wordMeanings (pp_state acc1) = wordMeanings (pp_state acc) \<and>
           cachesOnly (pp_state acc) (pp_state acc1) \<and>
           models_at (models (pp_state acc1)) (activeModelIndex s0) = Some m'"
proof -
  let ?st2 = "(pp_state acc)\<lparr>wordPos := Map_set (wordPos (pp_state acc)) (toLowerCase w) p\<rparr>"
  have v2: "models_at (models ?st2) (activeModelIndex s0) = Some m" using v by simp
  from updateModelPos_valid [OF v2, of "toLowerCase w" p] obtain m' where
    u: "updateModelPos (activeModelIndex s0) (toLowerCase w) p ?st2 =
          Inr (?st2\<lparr>models := (models ?st2)[nat (activeModelIndex s0) := m']\<rparr>)"
    by blast
  let ?st3 = "?st2\<lparr>models := (models ?st2)[nat (activeModelIndex s0) := m']\<rparr>"
  from v have act: "activeModelIndex s0 \<noteq> - 1"
    by (auto simp: models_at_def split: if_splits)
  have r: "resumeWord s0 acc w p =
      Inr (countPos (Some p) (acc\<lparr>pp_state := ?st3, trace := trace acc @ [Completed w]\<rparr>))"
    using act u by (simp add: resumeWord_def Let_def)
  have c3: "cachesOnly (pp_state acc) ?st3" by (simp add: cachesOnly_def)
  have v3: "models_at (models ?st3) (activeModelIndex s0) = Some m'"
    using v2 by (simp add: models_at_update)
  show ?thesis
    using r c3 v3
    by (intro exI [of _ "countPos (Some p) (acc\<lparr>pp_state := ?st3, trace := trace acc @ [Completed w]\<rparr>)"]
        exI [of _ m']) (simp add: countPos_fields)
qed

lemma runTasks_valid:
  assumes v: "models_at (models (pp_state acc)) (activeModelIndex s0) = Some m"
    and d: "distinct (map wordOf pending)"
    and low: "\<forall>t\<in>set pending. toLowerCase (wordOf t) = wordOf t"
    and res: "\<forall>w p. Resumed w p \<in> set pending \<longrightarrow>
                p = classify dict w \<and>
                (p \<noteq> ''unknown'' \<longrightarrow> Map_has (wordMeanings (pp_state acc)) w)"
  shows "\<exists>acc' c m'. runTasks dict s0 pick n pending acc = Inr acc' \<and>
           trace acc' = trace acc @ c \<and>
           (\<forall>e\<in>set c. \<exists>w\<in>wordOf ` set pending. about w e) \<and>
           (\<forall>t\<in>set pending. filter (about (wordOf t)) c = taskEvents t) \<and>
           wordsToAdd acc' = wordsToAdd acc \<and>
           cachesOnly (pp_state acc) (pp_state acc') \<and>
           models_at (models (pp_state acc')) (activeModelIndex s0) = Some m' \<and>
           (\<forall>w\<in>wordOf ` set pending.
              Map_get (wordPos (pp_state acc')) w = Some (classify dict w) \<and>
              (classify dict w \<noteq> ''unknown'' \<longrightarrow> Map_has (wordMeanings (pp_state acc')) w)) \<and>
           (\<forall>k. k \<notin> wordOf ` set pending \<longrightarrow>
              Map_get (wordPos (pp_state acc')) k = Map_get (wordPos (pp_state acc)) k) \<and>
           (\<forall>k. Map_has (wordMeanings (pp_state acc)) k \<longrightarrow>
              Map_has (wordMeanings (pp_state acc')) k)"
  using v d low res
proof (induction "sum_list (map weight pending)" arbitrary: pending acc n m rule: less_induct)
  case less
  note v = less.prems(1) and d = less.prems(2) and low = less.prems(3) and res = less.prems(4)
  show ?case
  proof (cases "pending = []")
    case True
    then show ?thesis
      using v by (subst runTasks.simps) (simp add: cachesOnly_refl)
  next
    case False
    define i where "i = pick n mod length pending"
    from False have lt: "i < length pending" by (simp add: i_def)
    from nth_split [OF lt] obtain ys zs where
      split: "pending = ys @ pending ! i # zs"
      and rem: "take i pending @ drop (Suc i) pending = ys @ zs"
      and upd: "\<And>y. pending[i := y] = ys @ y # zs"
      by blast
    show ?thesis
    proof (cases "pending ! i")
      case (Awaiting w)
      obtain pos st1 where g: "getWordPosDirectly dict w (pp_state acc) = (pos, st1)"
        by (cases "getWordPosDirectly dict w (pp_state acc)")
      define acc1 where "acc1 = acc\<lparr>pp_state := st1, trace := trace acc @ [Response w]\<rparr>"
      define pending1 where "pending1 = ys @ Resumed w pos # zs"
      have pd: "pending = ys @ Awaiting w # zs" using split Awaiting by simp
      have step: "runTasks dict s0 pick n pending acc = runTasks dict s0 pick (n + 1) pending1 acc1"
        using False Awaiting g
        by (subst runTasks.simps)
          (simp add: i_def [symmetric] upd acc1_def pending1_def Let_def)
      have pos: "pos = classify dict w"
        using arg_cong [OF g, of fst] by (simp add: getWordPosDirectly_classify)
      obtain mm where st1: "st1 = (pp_state acc)\<lparr>wordMeanings := mm\<rparr>"
        using getWordPosDirectly_frame [where dict = dict and w = w and s = "pp_state acc"] g by auto
      have co: "cachesOnly (pp_state acc) st1"
        using getWordPosDirectly_cachesOnly [where dict = dict and w = w and s = "pp_state acc"] g by simp
      have wp: "wordPos st1 = wordPos (pp_state acc)"
        by (simp add: st1)
      have mono: "Map_has (wordMeanings st1) k" if "Map_has (wordMeanings (pp_state acc)) k" for k
        using getWordPosDirectly_meanings_mono [OF that, where dict = dict and w = w] g by simp
      have loww: "toLowerCase w = w" using low pd by (metis in_set_conv_decomp wordOf.simps(1))
      have known: "Map_has (wordMeanings st1) w" if "pos \<noteq> ''unknown''"
        using getWordPosDirectly_meanings_known [where dict = dict and w = w and s = "pp_state acc"] g that loww by simp
      have words: "wordOf ` set pending1 = wordOf ` set pending"
        by (subst pd) (simp add: pending1_def)
      have less1: "sum_list (map weight pending1) < sum_list (map weight pending)"
        by (subst pd) (simp add: pending1_def)
      have v1: "models_at (models (pp_state acc1)) (activeModelIndex s0) = Some m"
        using v by (simp add: acc1_def st1)
      have d1: "distinct (map wordOf pending1)"
        using d by (subst (asm) pd) (simp add: pending1_def)
      have low1: "\<forall>t\<in>set pending1. toLowerCase (wordOf t) = wordOf t"
        using low loww by (subst (asm) pd) (auto simp: pending1_def)
      have res1: "\<forall>w' p. Resumed w' p \<in> set pending1 \<longrightarrow>
                p = classify dict w' \<and>
                (p \<noteq> ''unknown'' \<longrightarrow> Map_has (wordMeanings (pp_state acc1)) w')"
      proof (intro allI impI)
        fix w' p assume a: "Resumed w' p \<in> set pending1"
        show "p = classify dict w' \<and>
                (p \<noteq> ''unknown'' \<longrightarrow> Map_has (wordMeanings (pp_state acc1)) w')"
        proof (cases "Resumed w' p = Resumed w pos")
          case True
          then show ?thesis using pos known by (simp add: acc1_def)
        next
          case False
          then have "Resumed w' p \<in> set pending"
            using a by (subst pd) (auto simp: pending1_def)
          then show ?thesis using res mono by (auto simp: acc1_def)
        qed
      qed
      from less.hyps [OF less1 v1 d1 low1 res1, of "n + 1"] obtain acc' c m' where
        r: "runTasks dict s0 pick (n + 1) pending1 acc1 = Inr acc'"
        and tr: "trace acc' = trace acc1 @ c"
        and ev: "\<forall>e\<in>set c. \<exists>w\<in>wordOf ` set pending1. about w e"
        and fl: "\<forall>t\<in>set pending1. filter (about (wordOf t)) c = taskEvents t"
        and wa: "wordsToAdd acc' = wordsToAdd acc1"
        and co': "cachesOnly (pp_state acc1) (pp_state acc')"
        and v': "models_at (models (pp_state acc')) (activeModelIndex s0) = Some m'"
        and cl: "\<forall>w\<in>wordOf ` set pending1.
              Map_get (wordPos (pp_state acc')) w = Some (classify dict w) \<and>
              (classify dict w \<noteq> ''unknown'' \<longrightarrow> Map_has (wordMeanings (pp_state acc')) w)"
        and fr: "\<forall>k. k \<notin> wordOf ` set pending1 \<longrightarrow>
              Map_get (wordPos (pp_state acc')) k = Map_get (wordPos (pp_state acc1)) k"
        and mm: "\<forall>k. Map_has (wordMeanings (pp_state acc1)) k \<longrightarrow>
              Map_has (wordMeanings (pp_state acc')) k"
        by blast
      have win: "w \<in> wordOf ` set pending" by (subst pd) simp
      have fl': "filter (about (wordOf t)) (Response w # c) = taskEvents t"
        if t: "t \<in> set pending" for t
      proof (cases "wordOf t = w")
        case True
        have "t = Awaiting w"
        proof -
          from t have "t \<in> set ys \<or> t = Awaiting w \<or> t \<in> set zs"
            by (subst (asm) pd) auto
          moreover have "wordOf t \<notin> wordOf ` set ys" "wordOf t \<notin> wordOf ` set zs"
            using d True by (subst (asm) pd, auto)+
          ultimately show ?thesis by auto
        qed
        moreover have "filter (about w) c = taskEvents (Resumed w pos)"
          using fl by (auto simp: pending1_def)
        ultimately show ?thesis by (simp add: about_simps)
      next
        case False
        then have "t \<in> set pending1"
          using t by (subst (asm) pd) (auto simp: pending1_def)
        then show ?thesis using fl False by (auto simp: about_simps)
      qed
      show ?thesis
      proof (rule exI [of _ acc'], rule exI [of _ "Response w # c"], rule exI [of _ m'],
          intro conjI)
        show "runTasks dict s0 pick n pending acc = Inr acc'" using step r by simp
        show "trace acc' = trace acc @ Response w # c" using tr by (simp add: acc1_def)
        show "\<forall>e\<in>set (Response w # c). \<exists>w\<in>wordOf ` set pending. about w e"
          using ev win unfolding words by (auto simp: about_simps)
        show "\<forall>t\<in>set pending. filter (about (wordOf t)) (Response w # c) = taskEvents t"
          using fl' by blast
        show "wordsToAdd acc' = wordsToAdd acc" using wa by (simp add: acc1_def)
        show "cachesOnly (pp_state acc) (pp_state acc')"
          using cachesOnly_trans [OF co, of "pp_state acc'"] co' by (simp add: acc1_def)
        show "models_at (models (pp_state acc')) (activeModelIndex s0) = Some m'" by (rule v')
        show "\<forall>w\<in>wordOf ` set pending.
              Map_get (wordPos (pp_state acc')) w = Some (classify dict w) \<and>
              (classify dict w \<noteq> ''unknown'' \<longrightarrow> Map_has (wordMeanings (pp_state acc')) w)"
          using cl unfolding words .
        show "\<forall>k. k \<notin> wordOf ` set pending \<longrightarrow>
              Map_get (wordPos (pp_state acc')) k = Map_get (wordPos (pp_state acc)) k"
          using fr wp unfolding words by (simp add: acc1_def)
        show "\<forall>k. Map_has (wordMeanings (pp_state acc)) k \<longrightarrow>
              Map_has (wordMeanings (pp_state acc')) k"
          using mm mono by (simp add: acc1_def)
      qed
    next
      case (Resumed w p)
      have pd: "pending = ys @ Resumed w p # zs" using split Resumed by simp
      define pending1 where "pending1 = ys @ zs"
      have loww: "toLowerCase w = w" using low pd by (metis in_set_conv_decomp wordOf.simps(2))
      from resumeWord_valid [OF v, of w p] obtain acc1 m1 where
        rw: "resumeWord s0 acc w p = Inr acc1"
        and tr1: "trace acc1 = trace acc @ [Completed w]"
        and wa1: "wordsToAdd acc1 = wordsToAdd acc"
        and wp1: "wordPos (pp_state acc1) = Map_set (wordPos (pp_state acc)) w p"
        and wm1: "wordMeanings (pp_state acc1) = wordMeanings (pp_state acc)"
        and co: "cachesOnly (pp_state acc) (pp_state acc1)"
        and v1: "models_at (models (pp_state acc1)) (activeModelIndex s0) = Some m1"
        unfolding loww by blast
      have step: "runTasks dict s0 pick n pending acc = runTasks dict s0 pick (n + 1) pending1 acc1"
        using False Resumed rw
        by (subst runTasks.simps)
          (simp add: i_def [symmetric] rem pending1_def Let_def)
      have pw: "p = classify dict w"
        and known: "p \<noteq> ''unknown'' \<longrightarrow> Map_has (wordMeanings (pp_state acc)) w"
        using res by (subst (asm) pd, simp)+
      have wnot: "w \<notin> wordOf ` set pending1"
        using d by (subst (asm) pd) (auto simp: pending1_def)
      have words: "wordOf ` set pending = insert w (wordOf ` set pending1)"
        by (subst pd) (auto simp: pending1_def)
      have less1: "sum_list (map weight pending1) < sum_list (map weight pending)"
        by (subst pd) (simp add: pending1_def)
      have d1: "distinct (map wordOf pending1)"
        using d by (subst (asm) pd) (simp add: pending1_def)
      have sub: "set pending1 \<subseteq> set pending"
        by (subst pd) (auto simp: pending1_def)
      have low1: "\<forall>t\<in>set pending1. toLowerCase (wordOf t) = wordOf t"
        using low sub by blast
      have res1: "\<forall>w' p. Resumed w' p \<in> set pending1 \<longrightarrow>
                p = classify dict w' \<and>
                (p \<noteq> ''unknown'' \<longrightarrow> Map_has (wordMeanings (pp_state acc1)) w')"
        using res sub unfolding wm1 by blast
      from less.hyps [OF less1 v1 d1 low1 res1, of "n + 1"] obtain acc' c m' where
        r: "runTasks dict s0 pick (n + 1) pending1 acc1 = Inr acc'"
        and tr: "trace acc' = trace acc1 @ c"
        and ev: "\<forall>e\<in>set c. \<exists>w\<in>wordOf ` set pending1. about w e"
        and fl: "\<forall>t\<in>set pending1. filter (about (wordOf t)) c = taskEvents t"
        and wa: "wordsToAdd acc' = wordsToAdd acc1"
        and co': "cachesOnly (pp_state acc1) (pp_state acc')"
        and v': "models_at (models (pp_state acc')) (activeModelIndex s0) = Some m'"
        and cl: "\<forall>w\<in>wordOf ` set pending1.
              Map_get (wordPos (pp_state acc')) w = Some (classify dict w) \<and>
              (classify dict w \<noteq> ''unknown'' \<longrightarrow> Map_has (wordMeanings (pp_state acc')) w)"
        and fr: "\<forall>k. k \<notin> wordOf ` set pending1 \<longrightarrow>
              Map_get (wordPos (pp_state acc')) k = Map_get (wordPos (pp_state acc1)) k"
        and mm: "\<forall>k. Map_has (wordMeanings (pp_state acc1)) k \<longrightarrow>
              Map_has (wordMeanings (pp_state acc')) k"
        by blast
      have none: "filter (about w) c = []"
      proof -
        have "\<not> about w e" if "e \<in> set c" for e
        proof
          assume a: "about w e"
          from ev that obtain w' where "w' \<in> wordOf ` set pending1" "about w' e" by blast
          with a wnot about_same show False by blast
        qed
        then show ?thesis by (simp add: filter_empty_conv)
      qed
      have fl': "filter (about (wordOf t)) (Completed w # c) = taskEvents t"
        if t: "t \<in> set pending" for t
      proof (cases "wordOf t = w")
        case True
        have "t = Resumed w p"
        proof -
          from t have "t \<in> set ys \<or> t = Resumed w p \<or> t \<in> set zs"
            by (subst (asm) pd) auto
          moreover have "wordOf t \<notin> wordOf ` set ys" "wordOf t \<notin> wordOf ` set zs"
            using d True by (subst (asm) pd, auto)+
          ultimately show ?thesis by auto
        qed
        then show ?thesis using none by (simp add: about_simps)
      next
        case False
        then have "t \<in> set pending1"
          using t by (subst (asm) pd) (auto simp: pending1_def)
        then show ?thesis using fl False by (auto simp: about_simps)
      qed
      have getw: "Map_get (wordPos (pp_state acc')) w = Some p"
        using fr wnot by (simp add: wp1 Map_get_Map_set)
      show ?thesis
      proof (rule exI [of _ acc'], rule exI [of _ "Completed w # c"], rule exI [of _ m'],
          intro conjI)
        show "runTasks dict s0 pick n pending acc = Inr acc'" using step r by simp
        show "trace acc' = trace acc @ Completed w # c" using tr tr1 by simp
        show "\<forall>e\<in>set (Completed w # c). \<exists>w\<in>wordOf ` set pending. about w e"
          using ev unfolding words by (auto simp: about_simps)
        show "\<forall>t\<in>set pending. filter (about (wordOf t)) (Completed w # c) = taskEvents t"
          using fl' by blast
        show "wordsToAdd acc' = wordsToAdd acc" using wa wa1 by simp
        show "cachesOnly (pp_state acc) (pp_state acc')"
          using cachesOnly_trans [OF co co'] .
        show "models_at (models (pp_state acc')) (activeModelIndex s0) = Some m'" by (rule v')
        show "\<forall>w\<in>wordOf ` set pending.
              Map_get (wordPos (pp_state acc')) w = Some (classify dict w) \<and>
              (classify dict w \<noteq> ''unknown'' \<longrightarrow> Map_has (wordMeanings (pp_state acc')) w)"
          unfolding words using cl getw pw known mm wm1 by auto
        show "\<forall>k. k \<notin> wordOf ` set pending \<longrightarrow>
              Map_get (wordPos (pp_state acc')) k = Map_get (wordPos (pp_state acc)) k"
          unfolding words using fr by (simp add: wp1 Map_get_Map_set)
        show "\<forall>k. Map_has (wordMeanings (pp_state acc)) k \<longrightarrow>
              Map_has (wordMeanings (pp_state acc')) k"
          using mm wm1 by simp
      qed
    qed
  qed
qed

lemma toFetch_append: "toFetch s0 (xs @ ys) = toFetch s0 xs @ toFetch s0 ys"
  by (simp add: toFetch_def)

lemma toFetch_subset: "set (toFetch s0 xs) \<subseteq> set xs"
  by (auto simp: toFetch_def)

lemma foldl_startWord:
  "\<exists>acc'. foldl (startWord s0) (results, pending, acc) batch =
      (results @ map (\<lambda>w. if w \<in> set (highlightedWords s0) then None else Some w) batch,
       pending @ map Awaiting (toFetch s0 batch), acc') \<and>
     pp_state acc' = pp_state acc \<and> wordsToAdd acc' = wordsToAdd acc \<and>
     trace acc' = trace acc @ map Request (toFetch s0 batch)"
proof (induction batch arbitrary: results pending acc)
  case Nil
  show ?case by (simp add: toFetch_def)
next
  case (Cons w batch)
  show ?case
  proof (cases "w \<in> set (highlightedWords s0)")
    case True
    with Cons [of "results @ [None]" pending acc] show ?thesis
      by (simp add: startWord_def toFetch_def)
  next
    case False
    show ?thesis
    proof (cases "Map_has (wordPos s0) w")
      case True
      with False Cons [of "results @ [Some w]" pending "countPos (Map_get (wordPos s0) w) acc"]
      show ?thesis
        by (simp add: startWord_def toFetch_def countPos_fields)
    next
      case f: False
      with False Cons [of "results @ [Some w]" "pending @ [Awaiting w]"
          "acc\<lparr>trace := trace acc @ [Request w]\<rparr>"]
      show ?thesis
        by (simp add: startWord_def toFetch_def)
    qed
  qed
qed

lemma processBatch_valid:
  assumes v: "models_at (models (pp_state acc)) (activeModelIndex s0) = Some m"
    and d: "distinct batch"
    and low: "\<forall>w\<in>set batch. toLowerCase w = w"
  shows "\<exists>acc' c m'. processBatch dict s0 pick acc batch =
           Inr (map (\<lambda>w. if w \<in> set (highlightedWords s0) then None else Some w) batch, acc') \<and>
         trace acc' = trace acc @ batchTrace s0 (batch, c) \<and>
         completes (toFetch s0 batch) c \<and>
         wordsToAdd acc' = wordsToAdd acc \<and>
         cachesOnly (pp_state acc) (pp_state acc') \<and>
         models_at (models (pp_state acc')) (activeModelIndex s0) = Some m' \<and>
         (\<forall>w\<in>set (toFetch s0 batch).
            Map_get (wordPos (pp_state acc')) w = Some (classify dict w) \<and>
            (classify dict w \<noteq> ''unknown'' \<longrightarrow> Map_has (wordMeanings (pp_state acc')) w)) \<and>
         (\<forall>k. k \<notin> set (toFetch s0 batch) \<longrightarrow>
            Map_get (wordPos (pp_state acc')) k = Map_get (wordPos (pp_state acc)) k) \<and>
         (\<forall>k. Map_has (wordMeanings (pp_state acc)) k \<longrightarrow>
            Map_has (wordMeanings (pp_state acc')) k)"
proof -
  let ?pending = "map Awaiting (toFetch s0 batch)"
  from foldl_startWord [of s0 "[]" "[]" acc batch] obtain acc1 where
    f: "foldl (startWord s0) ([], [], acc) batch =
      (map (\<lambda>w. if w \<in> set (highlightedWords s0) then None else Some w) batch, ?pending, acc1)"
    and st1: "pp_state acc1 = pp_state acc"
    and wa1: "wordsToAdd acc1 = wordsToAdd acc"
    and tr1: "trace acc1 = trace acc @ map Request (toFetch s0 batch)"
    by auto
  have wo: "map wordOf ?pending = toFetch s0 batch" by (simp add: comp_def)
  have wi: "wordOf ` set ?pending = set (toFetch s0 batch)"
    by (simp add: image_image)
  have v1: "models_at (models (pp_state acc1)) (activeModelIndex s0) = Some m"
    using v by (simp add: st1)
  have d1: "distinct (map wordOf ?pending)"
    unfolding wo using d by (simp add: toFetch_def)
  have low1: "\<forall>t\<in>set ?pending. toLowerCase (wordOf t) = wordOf t"
    using low toFetch_subset [of s0 batch] by auto
  have res1: "\<forall>w p. Resumed w p \<in> set ?pending \<longrightarrow>
                p = classify dict w \<and>
                (p \<noteq> ''unknown'' \<longrightarrow> Map_has (wordMeanings (pp_state acc1)) w)"
    by auto
  from runTasks_valid [OF v1 d1 low1 res1, of pick 0] obtain acc' c m' where
    r: "runTasks dict s0 pick 0 ?pending acc1 = Inr acc'"
    and tr: "trace acc' = trace acc1 @ c"
    and ev: "\<forall>e\<in>set c. \<exists>w\<in>wordOf ` set ?pending. about w e"
    and fl: "\<forall>t\<in>set ?pending. filter (about (wordOf t)) c = taskEvents t"
    and wa: "wordsToAdd acc' = wordsToAdd acc1"
    and co: "cachesOnly (pp_state acc1) (pp_state acc')"
    and v': "models_at (models (pp_state acc')) (activeModelIndex s0) = Some m'"
    and cl: "\<forall>w\<in>wordOf ` set ?pending.
              Map_get (wordPos (pp_state acc')) w = Some (classify dict w) \<and>
              (classify dict w \<noteq> ''unknown'' \<longrightarrow> Map_has (wordMeanings (pp_state acc')) w)"
    and fr: "\<forall>k. k \<notin> wordOf ` set ?pending \<longrightarrow>
              Map_get (wordPos (pp_state acc')) k = Map_get (wordPos (pp_state acc1)) k"
    and mm: "\<forall>k. Map_has (wordMeanings (pp_state acc1)) k \<longrightarrow>
              Map_has (wordMeanings (pp_state acc')) k"
    by blast
  have comp: "completes (toFetch s0 batch) c"
    unfolding completes_def list_all_iff list_ex_iff
  proof (intro conjI ballI)
    fix e assume "e \<in> set c"
    with ev show "\<exists>w\<in>set (toFetch s0 batch). about w e" unfolding wi by blast
  next
    fix w assume "w \<in> set (toFetch s0 batch)"
    then have "Awaiting w \<in> set ?pending" by simp
    with fl have "filter (about (wordOf (Awaiting w))) c = taskEvents (Awaiting w)" by blast
    then show "filter (about w) c = [Response w, Completed w]" by simp
  qed
  show ?thesis
  proof (rule exI [of _ acc'], rule exI [of _ c], rule exI [of _ m'], intro conjI)
    show "processBatch dict s0 pick acc batch =
           Inr (map (\<lambda>w. if w \<in> set (highlightedWords s0) then None else Some w) batch, acc')"
      by (simp add: processBatch_def f r)
    show "trace acc' = trace acc @ batchTrace s0 (batch, c)"
      by (simp add: tr tr1 batchTrace_def)
    show "completes (toFetch s0 batch) c" by (rule comp)
    show "wordsToAdd acc' = wordsToAdd acc" by (simp add: wa wa1)
    show "cachesOnly (pp_state acc) (pp_state acc')" using co by (simp add: st1)
    show "models_at (models (pp_state acc')) (activeModelIndex s0) = Some m'" by (rule v')
    show "\<forall>w\<in>set (toFetch s0 batch).
            Map_get (wordPos (pp_state acc')) w = Some (classify dict w) \<and>
            (classify dict w \<noteq> ''unknown'' \<longrightarrow> Map_has (wordMeanings (pp_state acc')) w)"
      using cl unfolding wi .
    show "\<forall>k. k \<notin> set (toFetch s0 batch) \<longrightarrow>
            Map_get (wordPos (pp_state acc')) k = Map_get (wordPos (pp_state acc)) k"
      using fr unfolding wi by (simp add: st1)
    show "\<forall>k. Map_has (wordMeanings (pp_state acc)) k \<longrightarrow>
            Map_has (wordMeanings (pp_state acc')) k"
      using mm by (simp add: st1)
  qed
qed

subsection \<open>The loop over the batches\<close>

lemma batchLoop_valid:
  assumes v: "models_at (models (pp_state acc)) (activeModelIndex s0) = Some m"
    and d: "distinct fw"
    and low: "\<forall>w\<in>set fw. toLowerCase w = w"
  shows "\<exists>acc' cs m'. batchLoop dict s0 sched fw i acc = Inr acc' \<and>
         wordsToAdd acc' =
           wordsToAdd acc @ filter (\<lambda>w. w \<notin> set (highlightedWords s0)) (drop i fw) \<and>
         list_all2 (\<lambda>b c. completes (toFetch s0 b) c) (chunks batchSize (drop i fw)) cs \<and>
         trace acc' =
           trace acc @ intersperse [Delay 100]
             (map (batchTrace s0) (zip (chunks batchSize (drop i fw)) cs)) \<and>
         cachesOnly (pp_state acc) (pp_state acc') \<and>
         models_at (models (pp_state acc')) (activeModelIndex s0) = Some m' \<and>
         (\<forall>w\<in>set (toFetch s0 (drop i fw)).
            Map_get (wordPos (pp_state acc')) w = Some (classify dict w) \<and>
            (classify dict w \<noteq> ''unknown'' \<longrightarrow> Map_has (wordMeanings (pp_state acc')) w)) \<and>
         (\<forall>k. k \<notin> set (toFetch s0 (drop i fw)) \<longrightarrow>
            Map_get (wordPos (pp_state acc')) k = Map_get (wordPos (pp_state acc)) k) \<and>
         (\<forall>k. Map_has (wordMeanings (pp_state acc)) k \<longrightarrow>
            Map_has (wordMeanings (pp_state acc')) k)"
  using v
proof (induction "length fw - i" arbitrary: i acc m rule: less_induct)
  case less
  have bs: "0 < batchSize" by (simp add: batchSize_def)
  show ?case
  proof (cases "i < length fw")
    case False
    then have "batchLoop dict s0 sched fw i acc = Inr acc"
      by (subst batchLoop.simps) simp
    with False less.prems show ?thesis
      by (intro exI [of _ acc] exI [of _ "[]"] exI [of _ m])
        (simp add: chunks_Nil cachesOnly_refl toFetch_def)
  next
    case True
    let ?batch = "take batchSize (drop i fw)"
    let ?rest = "drop (i + batchSize) fw"
    have dr: "drop batchSize (drop i fw) = ?rest" by (simp add: add.commute)
    have split: "drop i fw = ?batch @ ?rest"
      by (simp only: dr [symmetric] append_take_drop_id)
    have dd: "distinct (drop i fw)" using d by simp
    have db: "distinct ?batch" using dd by simp
    have lb: "\<forall>w\<in>set ?batch. toLowerCase w = w"
      using low by (meson in_set_dropD in_set_takeD)
    have disj: "set ?batch \<inter> set ?rest = {}"
      using dd by (subst (asm) split) simp
    from processBatch_valid [OF less.prems db lb, of dict "sched i"] obtain acc1 c m1 where
      pb: "processBatch dict s0 (sched i) acc ?batch =
            Inr (map (\<lambda>w. if w \<in> set (highlightedWords s0) then None else Some w) ?batch, acc1)"
      and t1: "trace acc1 = trace acc @ batchTrace s0 (?batch, c)"
      and k1: "completes (toFetch s0 ?batch) c"
      and w1: "wordsToAdd acc1 = wordsToAdd acc"
      and c1: "cachesOnly (pp_state acc) (pp_state acc1)"
      and v1: "models_at (models (pp_state acc1)) (activeModelIndex s0) = Some m1"
      and cl1: "\<forall>w\<in>set (toFetch s0 ?batch).
            Map_get (wordPos (pp_state acc1)) w = Some (classify dict w) \<and>
            (classify dict w \<noteq> ''unknown'' \<longrightarrow> Map_has (wordMeanings (pp_state acc1)) w)"
      and fr1: "\<forall>k. k \<notin> set (toFetch s0 ?batch) \<longrightarrow>
            Map_get (wordPos (pp_state acc1)) k = Map_get (wordPos (pp_state acc)) k"
      and mm1: "\<forall>k. Map_has (wordMeanings (pp_state acc)) k \<longrightarrow>
            Map_has (wordMeanings (pp_state acc1)) k"
      by blast
    let ?acc2 = "acc1\<lparr>wordsToAdd := wordsToAdd acc1 @
        filter (\<lambda>w. w \<notin> set (highlightedWords s0)) ?batch\<rparr>"
    let ?acc3 = "if i + batchSize < length fw
        then ?acc2\<lparr>trace := trace ?acc2 @ [Delay 100]\<rparr> else ?acc2"
    have step: "batchLoop dict s0 sched fw i acc = batchLoop dict s0 sched fw (i + batchSize) ?acc3"
      using True
      by (subst batchLoop.simps) (simp add: slice_take_drop pb map_filter_results Let_def)
    have p3: "pp_state ?acc3 = pp_state acc1" by simp
    have v3: "models_at (models (pp_state ?acc3)) (activeModelIndex s0) = Some m1"
      using v1 by simp
    have "length fw - (i + batchSize) < length fw - i"
      using True bs by arith
    from less.hyps [OF this v3] obtain acc' cs m' where
      r: "batchLoop dict s0 sched fw (i + batchSize) ?acc3 = Inr acc'"
      and w': "wordsToAdd acc' =
           wordsToAdd ?acc3 @ filter (\<lambda>w. w \<notin> set (highlightedWords s0)) ?rest"
      and k': "list_all2 (\<lambda>b c. completes (toFetch s0 b) c) (chunks batchSize ?rest) cs"
      and t': "trace acc' =
           trace ?acc3 @ intersperse [Delay 100]
             (map (batchTrace s0) (zip (chunks batchSize ?rest) cs))"
      and c': "cachesOnly (pp_state ?acc3) (pp_state acc')"
      and v': "models_at (models (pp_state acc')) (activeModelIndex s0) = Some m'"
      and cl': "\<forall>w\<in>set (toFetch s0 ?rest).
            Map_get (wordPos (pp_state acc')) w = Some (classify dict w) \<and>
            (classify dict w \<noteq> ''unknown'' \<longrightarrow> Map_has (wordMeanings (pp_state acc')) w)"
      and fr': "\<forall>k. k \<notin> set (toFetch s0 ?rest) \<longrightarrow>
            Map_get (wordPos (pp_state acc')) k = Map_get (wordPos (pp_state ?acc3)) k"
      and mm': "\<forall>k. Map_has (wordMeanings (pp_state ?acc3)) k \<longrightarrow>
            Map_has (wordMeanings (pp_state acc')) k"
      by blast
    have ne: "drop i fw \<noteq> []" using True by simp
    have ch: "chunks batchSize (drop i fw) = ?batch # chunks batchSize ?rest"
      using chunks_step [OF bs ne] by (simp only: dr)
    have more: "chunks batchSize ?rest = [] \<longleftrightarrow> \<not> i + batchSize < length fw"
      using chunks_empty_iff [OF bs, of ?rest] by (simp add: not_less)
    have lcs: "length cs = length (chunks batchSize ?rest)"
      using k' by (simp add: list_all2_lengthD)
    have tf: "toFetch s0 (drop i fw) = toFetch s0 ?batch @ toFetch s0 ?rest"
      by (subst split) (rule toFetch_append)
    have nin: "w \<notin> set (toFetch s0 ?rest)" if "w \<in> set (toFetch s0 ?batch)" for w
      using that disj toFetch_subset [of s0 ?batch] toFetch_subset [of s0 ?rest] by blast
    have "wordsToAdd acc' =
           wordsToAdd acc @ filter (\<lambda>w. w \<notin> set (highlightedWords s0)) (?batch @ ?rest)"
      using w' w1 by simp
    then have r1: "wordsToAdd acc' =
           wordsToAdd acc @ filter (\<lambda>w. w \<notin> set (highlightedWords s0)) (drop i fw)"
      by (simp only: split [symmetric])
    have r2: "list_all2 (\<lambda>b c. completes (toFetch s0 b) c) (chunks batchSize (drop i fw)) (c # cs)"
      using k1 k' by (simp add: ch)
    have r3: "trace acc' = trace acc @ intersperse [Delay 100]
             (map (batchTrace s0) (zip (chunks batchSize (drop i fw)) (c # cs)))"
    proof (cases "i + batchSize < length fw")
      case True
      with more have "chunks batchSize ?rest \<noteq> []" by simp
      moreover from this lcs have "cs \<noteq> []" by auto
      ultimately show ?thesis using t' t1 True by (simp add: ch intersperse_Cons)
    next
      case False
      with more have "chunks batchSize ?rest = []" by simp
      with t' t1 False show ?thesis by (simp add: ch intersperse_Cons)
    qed
    from c' have "cachesOnly (pp_state acc1) (pp_state acc')" by (simp only: p3)
    with c1 have r4: "cachesOnly (pp_state acc) (pp_state acc')" by (rule cachesOnly_trans)
    have r5: "\<forall>w\<in>set (toFetch s0 (drop i fw)).
            Map_get (wordPos (pp_state acc')) w = Some (classify dict w) \<and>
            (classify dict w \<noteq> ''unknown'' \<longrightarrow> Map_has (wordMeanings (pp_state acc')) w)"
    proof
      fix w assume "w \<in> set (toFetch s0 (drop i fw))"
      then have "w \<in> set (toFetch s0 ?batch) \<or> w \<in> set (toFetch s0 ?rest)"
        by (simp add: tf)
      then show "Map_get (wordPos (pp_state acc')) w = Some (classify dict w) \<and>
            (classify dict w \<noteq> ''unknown'' \<longrightarrow> Map_has (wordMeanings (pp_state acc')) w)"
      proof
        assume a: "w \<in> set (toFetch s0 ?batch)"
        from nin [OF a] fr' have "Map_get (wordPos (pp_state acc')) w =
            Map_get (wordPos (pp_state acc1)) w" by (simp only: p3) simp
        moreover from mm' have "Map_has (wordMeanings (pp_state acc1)) w \<longrightarrow>
            Map_has (wordMeanings (pp_state acc')) w" by (simp only: p3) simp
        ultimately show ?thesis using cl1 a by auto
      next
        assume "w \<in> set (toFetch s0 ?rest)"
        with cl' show ?thesis by blast
      qed
    qed
    have r6: "\<forall>k. k \<notin> set (toFetch s0 (drop i fw)) \<longrightarrow>
            Map_get (wordPos (pp_state acc')) k = Map_get (wordPos (pp_state acc)) k"
    proof (intro allI impI)
      fix k assume "k \<notin> set (toFetch s0 (drop i fw))"
      then have a: "k \<notin> set (toFetch s0 ?batch)" and b: "k \<notin> set (toFetch s0 ?rest)"
        by (simp_all add: tf)
      from b fr' have "Map_get (wordPos (pp_state acc')) k =
            Map_get (wordPos (pp_state acc1)) k" by (simp only: p3) simp
      with a fr1 show "Map_get (wordPos (pp_state acc')) k = Map_get (wordPos (pp_state acc)) k"
        by simp
    qed
    have r7: "\<forall>k. Map_has (wordMeanings (pp_state acc)) k \<longrightarrow>
            Map_has (wordMeanings (pp_state acc')) k"
    proof (intro allI impI)
      fix k assume "Map_has (wordMeanings (pp_state acc)) k"
      with mm1 have "Map_has (wordMeanings (pp_state acc1)) k" by blast
      with mm' show "Map_has (wordMeanings (pp_state acc')) k" by (simp only: p3)
    qed
    from step r have r0: "batchLoop dict s0 sched fw i acc = Inr acc'" by simp
    show ?thesis
      by (rule exI [of _ acc'], rule exI [of _ "c # cs"], rule exI [of _ m'])
        (intro conjI r0 r1 r2 r3 r4 v' r5 r6 r7)
  qed
qed

lemma processParagraphWords_valid:
  assumes v: "models_at (models s) (activeModelIndex s) = Some m"
    and s1: "s1 = s\<lparr>isLoading := True, error := NoNotice, success := NoNotice\<rparr>"
    and d: "distinct fw"
    and low: "\<forall>w\<in>set fw. toLowerCase w = w"
  shows "\<exists>st a b c d cs m'.
     cachesOnly s st \<and>
     processParagraphWords dict sched pid text fw s s1 =
       Inr (if filter (\<lambda>w. w \<notin> set (highlightedWords s)) fw \<noteq> []
            then st\<lparr>savedParagraphs := savedParagraphs s @
                      [\<lparr>para_id = pid, para_text = text,
                        para_words = filter (\<lambda>w. w \<notin> set (highlightedWords s)) fw\<rparr>],
                    highlightedWords := highlightedWords s @
                      filter (\<lambda>w. w \<notin> set (highlightedWords s)) fw,
                    success := AddedFromParagraph
                      (length (filter (\<lambda>w. w \<notin> set (highlightedWords s)) fw)) a b c d,
                    error := NoNotice, isLoading := False, paragraphInput := []\<rparr>
            else st\<lparr>error := NoNewWords, success := NoNotice, isLoading := False,
                    paragraphInput := []\<rparr>,
            intersperse [Delay 100] (map (batchTrace s) (zip (chunks batchSize fw) cs))) \<and>
     list_all2 (\<lambda>b c. completes (toFetch s b) c) (chunks batchSize fw) cs \<and>
     models_at (models st) (activeModelIndex s) = Some m' \<and>
     (\<forall>w\<in>set (toFetch s fw).
        Map_get (wordPos st) w = Some (classify dict w) \<and>
        (classify dict w \<noteq> ''unknown'' \<longrightarrow> Map_has (wordMeanings st) w)) \<and>
     (\<forall>k. k \<notin> set (toFetch s fw) \<longrightarrow> Map_get (wordPos st) k = Map_get (wordPos s) k) \<and>
     (\<forall>k. Map_has (wordMeanings s) k \<longrightarrow> Map_has (wordMeanings st) k)"
proof -
  let ?acc0 = "\<lparr>pp_state = s1, wordsToAdd = [], nounsAdded = 0, verbsAdded = 0,
              adjectivesAdded = 0, adverbsAdded = 0, trace = []\<rparr>"
  have "models_at (models (pp_state ?acc0)) (activeModelIndex s) = Some m"
    using v by (simp add: s1)
  from batchLoop_valid [OF this d low, of dict sched 0] obtain acc' cs m' where
    r: "batchLoop dict s sched fw 0 ?acc0 = Inr acc'"
    and w': "wordsToAdd acc' = filter (\<lambda>w. w \<notin> set (highlightedWords s)) fw"
    and k': "list_all2 (\<lambda>b c. completes (toFetch s b) c) (chunks batchSize fw) cs"
    and t': "trace acc' = intersperse [Delay 100]
               (map (batchTrace s) (zip (chunks batchSize fw) cs))"
    and c': "cachesOnly s1 (pp_state acc')"
    and v': "models_at (models (pp_state acc')) (activeModelIndex s) = Some m'"
    and cl': "\<forall>w\<in>set (toFetch s fw).
            Map_get (wordPos (pp_state acc')) w = Some (classify dict w) \<and>
            (classify dict w \<noteq> ''unknown'' \<longrightarrow> Map_has (wordMeanings (pp_state acc')) w)"
    and fr': "\<forall>k. k \<notin> set (toFetch s fw) \<longrightarrow>
            Map_get (wordPos (pp_state acc')) k = Map_get (wordPos s1) k"
    and mm': "\<forall>k. Map_has (wordMeanings s1) k \<longrightarrow>
            Map_has (wordMeanings (pp_state acc')) k"
    by auto
  let ?st = "(pp_state acc')\<lparr>isLoading := isLoading s, error := error s, success := success s\<rparr>"
  have e1: "(pp_state acc')\<lparr>wordMeanings := wordMeanings s1, wordPos := wordPos s1,
      models := models s1\<rparr> = s1"
    using c' by (simp only: cachesOnly_def)
  have "?st\<lparr>wordMeanings := wordMeanings s, wordPos := wordPos s, models := models s\<rparr> =
      ((pp_state acc')\<lparr>wordMeanings := wordMeanings s1, wordPos := wordPos s1,
          models := models s1\<rparr>)\<lparr>isLoading := isLoading s, error := error s, success := success s\<rparr>"
    by (simp add: s1)
  also have "\<dots> = s" by (simp only: e1) (simp add: s1)
  finally have c: "cachesOnly s ?st" by (simp only: cachesOnly_def)
  have over1: "(pp_state acc')\<lparr>savedParagraphs := sp, highlightedWords := hw, success := su,
       error := er, isLoading := il, paragraphInput := pin\<rparr> =
     ?st\<lparr>savedParagraphs := sp, highlightedWords := hw, success := su,
       error := er, isLoading := il, paragraphInput := pin\<rparr>" for sp hw su er il pin
    by simp
  have over2: "(pp_state acc')\<lparr>error := er, success := su, isLoading := il, paragraphInput := pin\<rparr> =
     ?st\<lparr>error := er, success := su, isLoading := il, paragraphInput := pin\<rparr>" for su er il pin
    by simp
  have sp: "savedParagraphs (pp_state acc') = savedParagraphs s"
    using cachesOnly_fields(2) [OF c'] by (simp add: s1)
  have q1: "processParagraphWords dict sched pid text fw s s1 =
       Inr (if filter (\<lambda>w. w \<notin> set (highlightedWords s)) fw \<noteq> []
            then ?st\<lparr>savedParagraphs := savedParagraphs s @
                      [\<lparr>para_id = pid, para_text = text,
                        para_words = filter (\<lambda>w. w \<notin> set (highlightedWords s)) fw\<rparr>],
                    highlightedWords := highlightedWords s @
                      filter (\<lambda>w. w \<notin> set (highlightedWords s)) fw,
                    success := AddedFromParagraph
                      (length (filter (\<lambda>w. w \<notin> set (highlightedWords s)) fw))
                      (nounsAdded acc') (verbsAdded acc') (adjectivesAdded acc') (adverbsAdded acc'),
                    error := NoNotice, isLoading := False, paragraphInput := []\<rparr>
            else ?st\<lparr>error := NoNewWords, success := NoNotice, isLoading := False,
                    paragraphInput := []\<rparr>,
            intersperse [Delay 100] (map (batchTrace s) (zip (chunks batchSize fw) cs)))"
    apply (simp only: processParagraphWords_def r sum.case Let_def w' t' sp over1 over2)
    apply simp
    done
  have q2: "models_at (models ?st) (activeModelIndex s) = Some m'" using v' by simp
  have q3: "\<forall>w\<in>set (toFetch s fw).
        Map_get (wordPos ?st) w = Some (classify dict w) \<and>
        (classify dict w \<noteq> ''unknown'' \<longrightarrow> Map_has (wordMeanings ?st) w)"
    using cl' by simp
  have q4: "\<forall>k. k \<notin> set (toFetch s fw) \<longrightarrow> Map_get (wordPos ?st) k = Map_get (wordPos s) k"
    using fr' by (simp add: s1)
  have q5: "\<forall>k. Map_has (wordMeanings s) k \<longrightarrow> Map_has (wordMeanings ?st) k"
    using mm' by (simp add: s1)
  show ?thesis
    apply (rule exI [of _ ?st])
    apply (rule exI [of _ "nounsAdded acc'"])
    apply (rule exI [of _ "verbsAdded acc'"])
    apply (rule exI [of _ "adjectivesAdded acc'"])
    apply (rule exI [of _ "adverbsAdded acc'"])
    apply (rule exI [of _ cs])
    apply (rule exI [of _ m'])
    apply (intro conjI c q1 k' q2 q3 q4 q5)
    done
qed

lemma delays_count_general:
  "(\<And>b. b \<in> set bs \<Longrightarrow> d \<notin> set b) \<Longrightarrow>
   length (filter (\<lambda>e. e = d) (intersperse [d] bs)) = length bs - 1"
proof (induction "[d]" bs rule: intersperse.induct)
  case 1
  show ?case by simp
next
  case (2 b)
  then have "filter (\<lambda>e. e = d) b = []" by (auto simp: filter_empty_conv)
  then show ?case by simp
next
  case (3 b c bs)
  then have "filter (\<lambda>e. e = d) b = []" by (auto simp: filter_empty_conv)
  moreover have "length (filter (\<lambda>e. e = d) (intersperse [d] (c # bs))) = length (c # bs) - 1"
    using 3 by simp
  ultimately show ?case by simp
qed

lemma completes_no_delay: "completes ws c \<Longrightarrow> Delay n \<notin> set c"
  by (auto simp: completes_def list_all_iff list_ex_iff about_simps)

lemma delays_count:
  assumes "list_all2 (\<lambda>b c. completes (toFetch s b) c) bs cs"
  shows "length (filter (\<lambda>e. e = Delay 100)
           (intersperse [Delay 100] (map (batchTrace s) (zip bs cs)))) = length bs - 1"
proof -
  have "Delay 100 \<notin> set x" if "x \<in> set (map (batchTrace s) (zip bs cs))" for x
  proof -
    from that obtain b c where bc: "(b, c) \<in> set (zip bs cs)" and x: "x = batchTrace s (b, c)"
      by auto
    from bc assms have "completes (toFetch s b) c"
      by (auto simp: list_all2_iff)
    then have "Delay 100 \<notin> set c" by (rule completes_no_delay)
    then show ?thesis by (auto simp: x batchTrace_def)
  qed
  then have "length (filter (\<lambda>e. e = Delay 100)
           (intersperse [Delay 100] (map (batchTrace s) (zip bs cs)))) =
     length (map (batchTrace s) (zip bs cs)) - 1"
    by (rule delays_count_general)
  moreover have "length cs = length bs" using assms by (simp add: list_all2_lengthD)
  ultimately show ?thesis by simp
qed

lemma handleParagraphSubmit_found:
  assumes nb: "trim (paragraphInput s) \<noteq> []"
    and v: "models_at (models s) (activeModelIndex s) = Some m"
  shows "handleParagraphSubmit dict sched pid s =
     (if candidateWords (embeddings m) (paragraphInput s) = []
      then Inr (s\<lparr>isLoading := False, error := NoMatch, success := NoNotice\<rparr>, [])
      else processParagraphWords dict sched pid (trim (paragraphInput s))
             (candidateWords (embeddings m) (paragraphInput s)) s
             (s\<lparr>isLoading := True, error := NoNotice, success := NoNotice\<rparr>))"
proof -
  from v have "activeModelIndex s \<noteq> - 1"
    by (auto simp: models_at_def split: if_splits)
  with nb v show ?thesis
    by (simp add: handleParagraphSubmit_def Let_def findWords_candidate)
qed

lemma handleParagraphSubmit_result:
  assumes nb: "trim (paragraphInput s) \<noteq> []"
    and v: "models_at (models s) (activeModelIndex s) = Some m"
    and fw: "fw = candidateWords (embeddings m) (paragraphInput s)"
    and added: "added = filter (\<lambda>w. w \<notin> set (highlightedWords s)) fw"
  shows "\<exists>s' cs m'. handleParagraphSubmit dict sched pid s =
           Inr (s', intersperse [Delay 100] (map (batchTrace s) (zip (chunks batchSize fw) cs))) \<and>
         list_all2 (\<lambda>b c. completes (toFetch s b) c) (chunks batchSize fw) cs \<and>
         highlightedWords s' = highlightedWords s @ added \<and>
         savedParagraphs s' = savedParagraphs s @
           (if added = [] then []
            else [\<lparr>para_id = pid, para_text = trim (paragraphInput s), para_words = added\<rparr>]) \<and>
         error s' = (if fw = [] then NoMatch else if added = [] then NoNewWords else NoNotice) \<and>
         activeModelIndex s' = activeModelIndex s \<and>
         models_at (models s') (activeModelIndex s) = Some m' \<and>
         (\<forall>w\<in>set (toFetch s fw).
            Map_get (wordPos s') w = Some (classify dict w) \<and>
            (classify dict w \<noteq> ''unknown'' \<longrightarrow> Map_has (wordMeanings s') w)) \<and>
         (\<forall>k. k \<notin> set (toFetch s fw) \<longrightarrow> Map_get (wordPos s') k = Map_get (wordPos s) k) \<and>
         (\<forall>k. Map_has (wordMeanings s) k \<longrightarrow> Map_has (wordMeanings s') k)"
proof (cases "fw = []")
  case True
  with handleParagraphSubmit_found [OF nb v, of dict sched pid] fw added v show ?thesis
    by (intro exI [of _ "s\<lparr>isLoading := False, error := NoMatch, success := NoNotice\<rparr>"]
        exI [of _ "[]"] exI [of _ m])
      (simp add: chunks_Nil toFetch_def)
next
  case False
  let ?s1 = "s\<lparr>isLoading := True, error := NoNotice, success := NoNotice\<rparr>"
  have d: "distinct fw" unfolding fw by (rule candidateWords_distinct)
  have low: "\<forall>w\<in>set fw. toLowerCase w = w" unfolding fw using candidateWords_lower by blast
  from processParagraphWords_valid [OF v refl d low, of dict sched pid "trim (paragraphInput s)"]
  obtain st a b c d cs m' where
    c: "cachesOnly s st"
    and r: "processParagraphWords dict sched pid (trim (paragraphInput s)) fw s ?s1 =
       Inr (if filter (\<lambda>w. w \<notin> set (highlightedWords s)) fw \<noteq> []
            then st\<lparr>savedParagraphs := savedParagraphs s @
                      [\<lparr>para_id = pid, para_text = trim (paragraphInput s),
                        para_words = filter (\<lambda>w. w \<notin> set (highlightedWords s)) fw\<rparr>],
                    highlightedWords := highlightedWords s @
                      filter (\<lambda>w. w \<notin> set (highlightedWords s)) fw,
                    success := AddedFromParagraph
                      (length (filter (\<lambda>w. w \<notin> set (highlightedWords s)) fw)) a b c d,
                    error := NoNotice, isLoading := False, paragraphInput := []\<rparr>
            else st\<lparr>error := NoNewWords, success := NoNotice, isLoading := False,
                    paragraphInput := []\<rparr>,
            intersperse [Delay 100] (map (batchTrace s) (zip (chunks batchSize fw) cs)))"
    and k: "list_all2 (\<lambda>b c. completes (toFetch s b) c) (chunks batchSize fw) cs"
    and q2: "models_at (models st) (activeModelIndex s) = Some m'"
    and q3: "\<forall>w\<in>set (toFetch s fw).
        Map_get (wordPos st) w = Some (classify dict w) \<and>
        (classify dict w \<noteq> ''unknown'' \<longrightarrow> Map_has (wordMeanings st) w)"
    and q4: "\<forall>k. k \<notin> set (toFetch s fw) \<longrightarrow> Map_get (wordPos st) k = Map_get (wordPos s) k"
    and q5: "\<forall>k. Map_has (wordMeanings s) k \<longrightarrow> Map_has (wordMeanings st) k"
    by blast
  have h: "handleParagraphSubmit dict sched pid s =
      processParagraphWords dict sched pid (trim (paragraphInput s)) fw s ?s1"
    using handleParagraphSubmit_found [OF nb v, of dict sched pid] False fw by simp
  show ?thesis
  proof (cases "added = []")
    case True
    with h r False added cachesOnly_fields(1,2,3) [OF c] k q2 q3 q4 q5 show ?thesis
      by (intro exI [of _ "st\<lparr>error := NoNewWords, success := NoNotice, isLoading := False,
                    paragraphInput := []\<rparr>"] exI [of _ cs] exI [of _ m']) simp
  next
    case ne: False
    with h r False added cachesOnly_fields(3) [OF c] k q2 q3 q4 q5 show ?thesis
      by (intro exI [of _ "st\<lparr>savedParagraphs := savedParagraphs s @
                      [\<lparr>para_id = pid, para_text = trim (paragraphInput s),
                        para_words = added\<rparr>],
                    highlightedWords := highlightedWords s @ added,
                    success := AddedFromParagraph (length added) a b c d,
                    error := NoNotice, isLoading := False, paragraphInput := []\<rparr>"]
          exI [of _ cs] exI [of _ m']) simp
  qed
qed

lemmas paragraph_eval =
  candidateWords_def tokens_def isSeparator_def isWordChar_def Map_has_def

subsection \<open>Extraction\<close>

text \<open>
  Claim C4, as amended.  The button that submits a paragraph is disabled while the text is
  blank, so a submitted paragraph is not blank.  For such a paragraph and an active
  model, the words that \<open>handleParagraphSubmit\<close> finds are the candidate words: the
  tokens of the lower-cased text, which is cut at every character that is not a letter or
  a digit, the underscore included, without the tokens that contain a digit, each kept
  at its first occurrence, restricted to the keys of the active model.  The submission
  returns, and it reports \<open>NoMatch\<close> exactly when there is no candidate word; the state
  is then otherwise unchanged and nothing is requested.
\<close>

theorem paragraph_extraction:
  assumes "trim (paragraphInput s) \<noteq> []"
    and "models_at (models s) (activeModelIndex s) = Some m"
  shows "findWords (Some m) (extractWords (trim (paragraphInput s))) =
           Inr (candidateWords (embeddings m) (paragraphInput s)) \<and>
         (\<exists>s' tr. handleParagraphSubmit dict sched pid s = Inr (s', tr) \<and>
            (error s' = NoMatch \<longleftrightarrow> candidateWords (embeddings m) (paragraphInput s) = [])) \<and>
         (candidateWords (embeddings m) (paragraphInput s) = [] \<longrightarrow>
            handleParagraphSubmit dict sched pid s =
              Inr (s\<lparr>isLoading := False, error := NoMatch, success := NoNotice\<rparr>, []))"
proof (intro conjI)
  show "findWords (Some m) (extractWords (trim (paragraphInput s))) =
           Inr (candidateWords (embeddings m) (paragraphInput s))"
    by (rule findWords_candidate)
  from handleParagraphSubmit_result [OF assms refl refl, of dict sched pid]
  show "\<exists>s' tr. handleParagraphSubmit dict sched pid s = Inr (s', tr) \<and>
            (error s' = NoMatch \<longleftrightarrow> candidateWords (embeddings m) (paragraphInput s) = [])"
    by auto
  show "candidateWords (embeddings m) (paragraphInput s) = [] \<longrightarrow>
            handleParagraphSubmit dict sched pid s =
              Inr (s\<lparr>isLoading := False, error := NoMatch, success := NoNotice\<rparr>, [])"
    by (simp add: handleParagraphSubmit_found [OF assms])
qed

text \<open>The example of the specification.\<close>

theorem paragraph_extraction_witness:
  "trim ''The quick brown fox jumps. 123abc'' \<noteq> [] \<and>
   findWords
     (Some \<lparr>model_name = ''m'', embeddings =
        map (\<lambda>w. (w, \<lparr>we_word = w, we_x = Finite 0, we_y = Finite 0, we_pos = None\<rparr>))
          [''the'', ''quick'', ''brown'', ''fox'', ''jumps'']\<rparr>)
     (extractWords (trim ''The quick brown fox jumps. 123abc'')) =
     Inr [''the'', ''quick'', ''brown'', ''fox'', ''jumps''] \<and>
   (\<exists>s' tr. handleParagraphSubmit (\<lambda>w. Rejected) (\<lambda>i n. n) ''para-1''
        (initialState\<lparr>models := [\<lparr>model_name = ''m'', embeddings =
            map (\<lambda>w. (w, \<lparr>we_word = w, we_x = Finite 0, we_y = Finite 0, we_pos = None\<rparr>))
              [''the'', ''quick'', ''brown'', ''fox'', ''jumps'']\<rparr>],
           activeModelIndex := 0,
           paragraphInput := ''The quick brown fox jumps. 123abc''\<rparr>) = Inr (s', tr) \<and>
      error s' \<noteq> NoMatch)"
proof -
  let ?M = "\<lparr>model_name = ''m'', embeddings =
        map (\<lambda>w. (w, \<lparr>we_word = w, we_x = Finite 0, we_y = Finite 0, we_pos = None\<rparr>))
          [''the'', ''quick'', ''brown'', ''fox'', ''jumps'']\<rparr>"
  let ?S = "initialState\<lparr>models := [?M], activeModelIndex := 0,
           paragraphInput := ''The quick brown fox jumps. 123abc''\<rparr>"
  have p: "paragraphInput ?S = ''The quick brown fox jumps. 123abc''" by simp
  have nb': "trim ''The quick brown fox jumps. 123abc'' \<noteq> []"
    by (simp add: string_eval)
  have nb: "trim (paragraphInput ?S) \<noteq> []"
    by (simp only: p nb') simp
  have v: "models_at (models ?S) (activeModelIndex ?S) = Some ?M"
    by (simp add: models_at_def)
  have c: "candidateWords (embeddings ?M) ''The quick brown fox jumps. 123abc'' =
      [''the'', ''quick'', ''brown'', ''fox'', ''jumps'']"
    by (simp add: paragraph_eval string_eval)
  note t = paragraph_extraction [OF nb v, of "\<lambda>w. Rejected" "\<lambda>i n. n" "''para-1''", unfolded p]
  from t have f: "findWords (Some ?M) (extractWords (trim ''The quick brown fox jumps. 123abc'')) =
      Inr [''the'', ''quick'', ''brown'', ''fox'', ''jumps'']"
    by (simp only: c)
  from t obtain s' tr where
    h: "handleParagraphSubmit (\<lambda>w. Rejected) (\<lambda>i n. n) ''para-1'' ?S = Inr (s', tr)"
    and e: "error s' = NoMatch \<longleftrightarrow>
      candidateWords (embeddings ?M) ''The quick brown fox jumps. 123abc'' = []"
    by blast
  from e have "error s' \<noteq> NoMatch" by (simp only: c) simp
  with nb' f h show ?thesis by blast
qed

text \<open>
  The text \<open>snake_case\<close> with the vocabulary \<open>snake\<close>, \<open>case\<close>.  When the non-word
  characters are those outside the class \<^verbatim>\<open>\w\<close>, the only token is \<open>snake_case\<close>, no
  token is in the vocabulary and \<open>NoMatch\<close> is due.  The program cuts the text at the
  underscore: it finds both words and \<open>NoMatch\<close> is not reported.
\<close>

theorem underscore_paragraph_counterexample:
  "trim ''snake_case'' \<noteq> [] \<and>
   claimedCandidateWords
     (map (\<lambda>w. (w, \<lparr>we_word = w, we_x = Finite 0, we_y = Finite 0, we_pos = None\<rparr>))
        [''snake'', ''case'']) ''snake_case'' = [] \<and>
   findWords
     (Some \<lparr>model_name = ''m'', embeddings =
        map (\<lambda>w. (w, \<lparr>we_word = w, we_x = Finite 0, we_y = Finite 0, we_pos = None\<rparr>))
          [''snake'', ''case'']\<rparr>)
     (extractWords (trim ''snake_case'')) = Inr [''snake'', ''case''] \<and>
   map_sum fst (\<lambda>r. (error (fst r), highlightedWords (fst r)))
     (handleParagraphSubmit (\<lambda>w. Rejected) (\<lambda>i n. n) ''para-1''
        (initialState\<lparr>models := [\<lparr>model_name = ''m'', embeddings =
            map (\<lambda>w. (w, \<lparr>we_word = w, we_x = Finite 0, we_y = Finite 0, we_pos = None\<rparr>))
              [''snake'', ''case'']\<rparr>],
           activeModelIndex := 0, paragraphInput := ''snake_case''\<rparr>)) =
     Inr (NoNotice, [''snake'', ''case''])"
proof -
  let ?M = "\<lparr>model_name = ''m'', embeddings =
        map (\<lambda>w. (w, \<lparr>we_word = w, we_x = Finite 0, we_y = Finite 0, we_pos = None\<rparr>))
          [''snake'', ''case'']\<rparr>"
  let ?S = "initialState\<lparr>models := [?M], activeModelIndex := 0,
           paragraphInput := ''snake_case''\<rparr>"
  have nb': "trim ''snake_case'' \<noteq> []"
    by (simp add: string_eval)
  have nb: "trim (paragraphInput ?S) \<noteq> []"
    using nb' by simp
  have v: "models_at (models ?S) (activeModelIndex ?S) = Some ?M"
    by (simp add: models_at_def)
  have c: "candidateWords (embeddings ?M) ''snake_case'' = [''snake'', ''case'']"
    by (simp add: paragraph_eval string_eval)
  have cl: "claimedCandidateWords
     (map (\<lambda>w. (w, \<lparr>we_word = w, we_x = Finite 0, we_y = Finite 0, we_pos = None\<rparr>))
        [''snake'', ''case'']) ''snake_case'' = []"
    by (simp add: claimedCandidateWords_def paragraph_eval string_eval)
  have f: "findWords (Some ?M) (extractWords (trim ''snake_case'')) = Inr [''snake'', ''case'']"
    using findWords_candidate [of ?M "''snake_case''"] by (simp only: c)
  from handleParagraphSubmit_result [OF nb v refl refl, of "\<lambda>w. Rejected" "\<lambda>i n. n" "''para-1''"]
  obtain s' tr where
    h: "handleParagraphSubmit (\<lambda>w. Rejected) (\<lambda>i n. n) ''para-1'' ?S = Inr (s', tr)"
    and hw: "highlightedWords s' = highlightedWords ?S @
       filter (\<lambda>w. w \<notin> set (highlightedWords ?S)) (candidateWords (embeddings ?M) (paragraphInput ?S))"
    and e: "error s' = (if candidateWords (embeddings ?M) (paragraphInput ?S) = [] then NoMatch
         else if filter (\<lambda>w. w \<notin> set (highlightedWords ?S))
                   (candidateWords (embeddings ?M) (paragraphInput ?S)) = []
              then NoNewWords else NoNotice)"
    by blast
  have p: "paragraphInput ?S = ''snake_case''" "highlightedWords ?S = []"
    by (simp_all add: initialState_def)
  from hw have hw': "highlightedWords s' = [''snake'', ''case'']"
    by (simp only: p c) simp
  from e have e': "error s' = NoNotice"
    by (simp only: p c) simp
  have "map_sum fst (\<lambda>r. (error (fst r), highlightedWords (fst r)))
     (handleParagraphSubmit (\<lambda>w. Rejected) (\<lambda>i n. n) ''para-1'' ?S) =
     Inr (NoNotice, [''snake'', ''case''])"
    by (simp only: h map_sum.simps fst_conv hw' e')
  with nb' cl f show ?thesis by (intro conjI)
qed

subsection \<open>Batches and delays\<close>

text \<open>
  Claim C6.  A submitted paragraph with an active model is processed to its end under
  every order \<open>sched\<close> in which the callbacks of a batch take their steps.  The batches
  are the consecutive pieces of 25 candidate words, in order (the last one may be shorter
  and none is empty).  The trace of the submission is the trace of the first batch, a
  wait of 100 ms, the trace of the second batch, a wait, and so on, with no wait after
  the last batch: \<open>\<lceil>n / 25\<rceil> - 1\<close> waits for \<open>n\<close> words, hence \<open>k - 1\<close> for \<open>25 k\<close>
  words.  The trace of a batch starts with the requests for its words that were neither
  highlighted nor in the cache when the paragraph was submitted, all of them sent, in
  the order of the batch, before an answer is handled; the rest of it are the response
  and the completion of each of these words, in this order for a word and interleaved
  between the words as \<open>sched\<close> says.  So every callback of a batch has completed
  before the wait and before the first request of the next batch.  In the end the cache
  holds, for a word that was requested, the class that \<open>classify\<close> gives for the answer
  of the service, and for every other candidate word what it held before; the
  candidate words that were not highlighted are highlighted.
\<close>

theorem batches_and_delays:
  assumes "trim (paragraphInput s) \<noteq> []"
    and "models_at (models s) (activeModelIndex s) = Some m"
    and "fw = candidateWords (embeddings m) (paragraphInput s)"
  shows "\<exists>s' tr cs. handleParagraphSubmit dict sched pid s = Inr (s', tr) \<and>
           tr = intersperse [Delay 100] (map (batchTrace s) (zip (chunks batchSize fw) cs)) \<and>
           list_all2 (\<lambda>b c. completes (toFetch s b) c) (chunks batchSize fw) cs \<and>
           concat (chunks batchSize fw) = fw \<and>
           (\<forall>b \<in> set (chunks batchSize fw). b \<noteq> [] \<and> length b \<le> 25) \<and>
           (\<forall>b \<in> set (butlast (chunks batchSize fw)). length b = 25) \<and>
           length (chunks batchSize fw) = (length fw + 24) div 25 \<and>
           length (filter (\<lambda>e. e = Delay 100) tr) = (length fw + 24) div 25 - 1 \<and>
           (\<forall>k. length fw = 25 * k \<longrightarrow> length (filter (\<lambda>e. e = Delay 100) tr) = k - 1) \<and>
           (\<forall>w \<in> set fw. Map_get (wordPos s') w =
              (if w \<in> set (highlightedWords s) \<or> Map_has (wordPos s) w
               then Map_get (wordPos s) w else Some (classify dict w))) \<and>
           highlightedWords s' =
             highlightedWords s @ filter (\<lambda>w. w \<notin> set (highlightedWords s)) fw"
proof -
  have bs: "0 < batchSize" and b25: "batchSize = 25" by (simp_all add: batchSize_def)
  from handleParagraphSubmit_result [OF assms refl, of dict sched pid]
  obtain s' cs where
    r: "handleParagraphSubmit dict sched pid s =
          Inr (s', intersperse [Delay 100] (map (batchTrace s) (zip (chunks batchSize fw) cs)))"
    and k: "list_all2 (\<lambda>b c. completes (toFetch s b) c) (chunks batchSize fw) cs"
    and hw: "highlightedWords s' =
          highlightedWords s @ filter (\<lambda>w. w \<notin> set (highlightedWords s)) fw"
    and cl: "\<forall>w\<in>set (toFetch s fw). Map_get (wordPos s') w = Some (classify dict w) \<and>
            (classify dict w \<noteq> ''unknown'' \<longrightarrow> Map_has (wordMeanings s') w)"
    and fr: "\<forall>k. k \<notin> set (toFetch s fw) \<longrightarrow> Map_get (wordPos s') k = Map_get (wordPos s) k"
    by blast
  let ?tr = "intersperse [Delay 100] (map (batchTrace s) (zip (chunks batchSize fw) cs))"
  have r1: "concat (chunks batchSize fw) = fw" using bs by (rule concat_chunks)
  have r2: "\<forall>b \<in> set (chunks batchSize fw). b \<noteq> [] \<and> length b \<le> 25"
    using chunks_sizes [OF bs, of _ fw] by (simp add: b25)
  have r3: "\<forall>b \<in> set (butlast (chunks batchSize fw)). length b = 25"
    using chunks_full [OF bs, of _ fw] by (simp add: b25)
  have r4: "length (chunks batchSize fw) = (length fw + 24) div 25"
    using length_chunks [OF bs, of fw] by (simp add: b25)
  have r5: "length (filter (\<lambda>e. e = Delay 100) ?tr) = (length fw + 24) div 25 - 1"
    by (simp only: delays_count [OF k] r4)
  have r6: "\<forall>k. length fw = 25 * k \<longrightarrow> length (filter (\<lambda>e. e = Delay 100) ?tr) = k - 1"
  proof (intro allI impI)
    fix k assume "length fw = 25 * k"
    then have "(length fw + 24) div 25 = k" by simp
    with r5 show "length (filter (\<lambda>e. e = Delay 100) ?tr) = k - 1" by simp
  qed
  have r7: "\<forall>w \<in> set fw. Map_get (wordPos s') w =
              (if w \<in> set (highlightedWords s) \<or> Map_has (wordPos s) w
               then Map_get (wordPos s) w else Some (classify dict w))"
  proof
    fix w assume w: "w \<in> set fw"
    show "Map_get (wordPos s') w =
              (if w \<in> set (highlightedWords s) \<or> Map_has (wordPos s) w
               then Map_get (wordPos s) w else Some (classify dict w))"
    proof (cases "w \<in> set (highlightedWords s) \<or> Map_has (wordPos s) w")
      case True
      then have "w \<notin> set (toFetch s fw)" by (auto simp: toFetch_def)
      with fr True show ?thesis by simp
    next
      case False
      with w have "w \<in> set (toFetch s fw)" by (simp add: toFetch_def)
      with cl False show ?thesis by simp
    qed
  qed
  show ?thesis
    by (rule exI [of _ s'], rule exI [of _ ?tr], rule exI [of _ cs])
      (intro conjI r refl k r1 r2 r3 r4 r5 r6 r7 hw)
qed

text \<open>
  Twenty-six candidate words, of which \<open>a\<close> is in the cache and \<open>b\<close> is highlighted, and
  a service that knows the word \<open>c\<close> only: twenty-three requests and the events that
  complete them, one wait, the request for \<open>z\<close> and its two events.
\<close>

theorem batches_and_delays_witness:
  "\<exists>s' c1. handleParagraphSubmit
        (\<lambda>w. if w = ''c''
              then Resolved (JArr [JObj [(''word'', JStr ''c''),
                     (''meanings'', JArr [JObj [(''partOfSpeech'', JStr ''noun''),
                        (''definitions'', JArr [JObj [(''definition'', JStr ''a letter'')]])]])]])
              else Rejected)
        (\<lambda>i n. 3 * n + 7) ''para-1''
        (initialState\<lparr>models := [\<lparr>model_name = ''m'', embeddings =
            map (\<lambda>w. (w, \<lparr>we_word = w, we_x = Finite 0, we_y = Finite 0, we_pos = None\<rparr>))
              [''a'', ''b'', ''c'', ''d'', ''e'', ''f'', ''g'', ''h'', ''i'', ''j'', ''k'', ''l'',
               ''m'', ''n'', ''o'', ''p'', ''q'', ''r'', ''s'', ''t'', ''u'', ''v'', ''w'', ''x'',
               ''y'', ''z'']\<rparr>],
           activeModelIndex := 0, highlightedWords := [''b''],
           wordPos := [(''a'', ''verb'')],
           paragraphInput := ''a b c d e f g h i j k l m n o p q r s t u v w x y z''\<rparr>) =
     Inr (s',
       map Request
         [''c'', ''d'', ''e'', ''f'', ''g'', ''h'', ''i'', ''j'', ''k'', ''l'', ''m'', ''n'', ''o'',
          ''p'', ''q'', ''r'', ''s'', ''t'', ''u'', ''v'', ''w'', ''x'', ''y''] @ c1 @
       [Delay 100, Request ''z'', Response ''z'', Completed ''z'']) \<and>
     completes
       [''c'', ''d'', ''e'', ''f'', ''g'', ''h'', ''i'', ''j'', ''k'', ''l'', ''m'', ''n'', ''o'',
        ''p'', ''q'', ''r'', ''s'', ''t'', ''u'', ''v'', ''w'', ''x'', ''y''] c1 \<and>
     Map_get (wordPos s') ''a'' = Some ''verb'' \<and>
     Map_get (wordPos s') ''b'' = None \<and>
     Map_get (wordPos s') ''c'' = Some ''noun'' \<and>
     Map_get (wordPos s') ''z'' = Some ''unknown'' \<and>
     highlightedWords s' =
       [''b'', ''a'', ''c'', ''d'', ''e'', ''f'', ''g'', ''h'', ''i'', ''j'', ''k'', ''l'', ''m'',
        ''n'', ''o'', ''p'', ''q'', ''r'', ''s'', ''t'', ''u'', ''v'', ''w'', ''x'', ''y'', ''z'']"
proof -
  let ?ws = "[''a'', ''b'', ''c'', ''d'', ''e'', ''f'', ''g'', ''h'', ''i'', ''j'', ''k'', ''l'',
               ''m'', ''n'', ''o'', ''p'', ''q'', ''r'', ''s'', ''t'', ''u'', ''v'', ''w'', ''x'',
               ''y'', ''z'']"
  let ?b1 = "[''a'', ''b'', ''c'', ''d'', ''e'', ''f'', ''g'', ''h'', ''i'', ''j'', ''k'', ''l'',
               ''m'', ''n'', ''o'', ''p'', ''q'', ''r'', ''s'', ''t'', ''u'', ''v'', ''w'', ''x'',
               ''y'']"
  let ?f1 = "[''c'', ''d'', ''e'', ''f'', ''g'', ''h'', ''i'', ''j'', ''k'', ''l'', ''m'', ''n'', ''o'',
          ''p'', ''q'', ''r'', ''s'', ''t'', ''u'', ''v'', ''w'', ''x'', ''y'']"
  let ?M = "\<lparr>model_name = ''m'', embeddings =
            map (\<lambda>w. (w, \<lparr>we_word = w, we_x = Finite 0, we_y = Finite 0, we_pos = None\<rparr>)) ?ws\<rparr>"
  let ?S = "initialState\<lparr>models := [?M], activeModelIndex := 0, highlightedWords := [''b''],
           wordPos := [(''a'', ''verb'')],
           paragraphInput := ''a b c d e f g h i j k l m n o p q r s t u v w x y z''\<rparr>"
  let ?dict = "\<lambda>w. if w = ''c''
              then Resolved (JArr [JObj [(''word'', JStr ''c''),
                     (''meanings'', JArr [JObj [(''partOfSpeech'', JStr ''noun''),
                        (''definitions'', JArr [JObj [(''definition'', JStr ''a letter'')]])]])]])
              else Rejected"
  have nb: "trim (paragraphInput ?S) \<noteq> []"
    by (simp add: string_eval)
  have v: "models_at (models ?S) (activeModelIndex ?S) = Some ?M"
    by (simp add: models_at_def)
  have c: "?ws = candidateWords (embeddings ?M) (paragraphInput ?S)"
    by (simp add: paragraph_eval string_eval)
  have ch: "chunks batchSize ?ws = [?b1, [''z'']]"
    by (simp add: chunks_step chunks_Nil batchSize_def)
  have f1: "toFetch ?S ?b1 = ?f1" and f2: "toFetch ?S [''z''] = [''z'']"
    by (simp_all add: toFetch_def Map_has_def)
  have hl: "highlightedWords ?S = [''b'']" and wp: "wordPos ?S = [(''a'', ''verb'')]"
    by simp_all
  from batches_and_delays [OF nb v c, of ?dict "\<lambda>i n. 3 * n + 7" "''para-1''"]
  obtain s' tr cs where
    h: "handleParagraphSubmit ?dict (\<lambda>i n. 3 * n + 7) ''para-1'' ?S = Inr (s', tr)"
    and t: "tr = intersperse [Delay 100] (map (batchTrace ?S) (zip (chunks batchSize ?ws) cs))"
    and k: "list_all2 (\<lambda>b c. completes (toFetch ?S b) c) (chunks batchSize ?ws) cs"
    and cl: "\<forall>w \<in> set ?ws. Map_get (wordPos s') w =
              (if w \<in> set (highlightedWords ?S) \<or> Map_has (wordPos ?S) w
               then Map_get (wordPos ?S) w else Some (classify ?dict w))"
    and hw: "highlightedWords s' =
             highlightedWords ?S @ filter (\<lambda>w. w \<notin> set (highlightedWords ?S)) ?ws"
    by blast
  from k obtain c1 c2 where cs: "cs = [c1, c2]"
    and k1: "completes (toFetch ?S ?b1) c1" and k2: "completes (toFetch ?S [''z'']) c2"
    unfolding ch by (auto simp: list_all2_Cons1)
  from k1 have k1': "completes ?f1 c1" by (simp only: f1)
  from k2 have "completes [''z''] c2" by (simp only: f2)
  then have az: "\<forall>e\<in>set c2. about ''z'' e"
    and fz: "filter (about ''z'') c2 = [Response ''z'', Completed ''z'']"
    by (simp_all add: completes_def list_all_iff)
  from az have "filter (about ''z'') c2 = c2" by (simp only: filter_id_conv)
  with fz have c2: "c2 = [Response ''z'', Completed ''z'']" by simp
  have bt1: "batchTrace ?S (?b1, c1) = map Request ?f1 @ c1"
    by (simp only: batchTrace_def prod.case f1)
  have bt2: "batchTrace ?S ([''z''], c2) = [Request ''z'', Response ''z'', Completed ''z'']"
    by (simp only: batchTrace_def prod.case f2 c2) simp
  have i2: "intersperse [Delay 100] (map f (zip [x1, x2] [y1, y2])) =
      f (x1, y1) @ [Delay 100] @ f (x2, y2)"
    for f :: "string list \<times> event list \<Rightarrow> event list" and x1 x2 y1 y2
    by simp
  have tr: "tr = map Request ?f1 @ c1 @ [Delay 100, Request ''z'', Response ''z'', Completed ''z'']"
    by (simp only: t ch cs i2 bt1 bt2 append.simps append_assoc)
  have g: "Map_get (wordPos s') w =
              (if w \<in> set (highlightedWords ?S) \<or> Map_has (wordPos ?S) w
               then Map_get (wordPos ?S) w else Some (classify ?dict w))" if "w \<in> set ?ws" for w
    using cl that by blast
  have ga: "Map_get (wordPos s') ''a'' = Some ''verb''"
    using g [of "''a''"] by (simp add: Map_has_def Map_get_def)
  have gb: "Map_get (wordPos s') ''b'' = None"
    using g [of "''b''"] by (simp add: Map_has_def Map_get_def)
  have gc: "Map_get (wordPos s') ''c'' = Some ''noun''"
    using g [of "''c''"]
    by (simp add: Map_has_def Map_get_def classify_def classified_def lookupProp_def
        truthy_def nullish_def normalizePos_def)
  have gz: "Map_get (wordPos s') ''z'' = Some ''unknown''"
    using g [of "''z''"] by (simp add: Map_has_def Map_get_def classify_def)
  have hw': "highlightedWords s' =
       [''b'', ''a'', ''c'', ''d'', ''e'', ''f'', ''g'', ''h'', ''i'', ''j'', ''k'', ''l'', ''m'',
        ''n'', ''o'', ''p'', ''q'', ''r'', ''s'', ''t'', ''u'', ''v'', ''w'', ''x'', ''y'', ''z'']"
    using hw by (simp only: hl) simp
  from h have h': "handleParagraphSubmit ?dict (\<lambda>i n. 3 * n + 7) ''para-1'' ?S =
      Inr (s', map Request ?f1 @ c1 @ [Delay 100, Request ''z'', Response ''z'', Completed ''z''])"
    by (simp only: tr)
  show ?thesis
    by (rule exI [of _ s'], rule exI [of _ c1]) (intro conjI h' k1' ga gb gc gz hw')
qed

text \<open>
  Three words and an order in which the answers arrive last word first: the callbacks
  complete in the order \<open>c\<close>, \<open>a\<close>, \<open>b\<close>, while the words are recorded in the order of
  the paragraph.
\<close>

lemma completion_order_example:
  "map_sum fst (\<lambda>r. (snd r, highlightedWords (fst r), wordPos (fst r)))
     (handleParagraphSubmit (\<lambda>w. Rejected) (\<lambda>i n. 2 * n + 2) ''para-1''
        (initialState\<lparr>models := [\<lparr>model_name = ''m'', embeddings =
            map (\<lambda>w. (w, \<lparr>we_word = w, we_x = Finite 0, we_y = Finite 0, we_pos = None\<rparr>))
              [''a'', ''b'', ''c'']\<rparr>],
           activeModelIndex := 0, paragraphInput := ''a b c''\<rparr>)) =
   Inr ([Request ''a'', Request ''b'', Request ''c'',
         Response ''c'', Response ''b'', Response ''a'',
         Completed ''c'', Completed ''a'', Completed ''b''],
        [''a'', ''b'', ''c''],
        [(''c'', ''unknown''), (''a'', ''unknown''), (''b'', ''unknown'')])"
proof -
  let ?M = "\<lparr>model_name = ''m'', embeddings =
            map (\<lambda>w. (w, \<lparr>we_word = w, we_x = Finite 0, we_y = Finite 0, we_pos = None\<rparr>))
              [''a'', ''b'', ''c'']\<rparr>"
  let ?S = "initialState\<lparr>models := [?M], activeModelIndex := 0, paragraphInput := ''a b c''\<rparr>"
  have nb: "trim (paragraphInput ?S) \<noteq> []"
    by (simp add: string_eval)
  have v: "models_at (models ?S) (activeModelIndex ?S) = Some ?M"
    by (simp add: models_at_def)
  have c: "candidateWords (embeddings ?M) (paragraphInput ?S) = [''a'', ''b'', ''c'']"
    by (simp add: paragraph_eval string_eval)
  have t: "trim (paragraphInput ?S) = ''a b c''"
    by (simp add: string_eval)
  have l: "toLowerCase ''a'' = ''a''" "toLowerCase ''b'' = ''b''" "toLowerCase ''c'' = ''c''"
    by (simp_all add: string_eval)
  have h: "handleParagraphSubmit (\<lambda>w. Rejected) (\<lambda>i n. 2 * n + 2) ''para-1'' ?S =
      processParagraphWords (\<lambda>w. Rejected) (\<lambda>i n. 2 * n + 2) ''para-1'' ''a b c''
        [''a'', ''b'', ''c''] ?S
        (?S\<lparr>isLoading := True, error := NoNotice, success := NoNotice\<rparr>)"
    by (simp only: handleParagraphSubmit_found [OF nb v] c t) simp
  have u: "(x # xs)[numeral k := y] = x # xs[pred_numeral k := y]" for x y :: task and xs k
    by (simp add: numeral_eq_Suc)
  show ?thesis
    unfolding h
    by (simp add: numeral_2_eq_2 [symmetric] numeral_3_eq_3 [symmetric] u
        processParagraphWords_def batchLoop.simps processBatch_def startWord_def
        runTasks.simps resumeWord_def getWordPosDirectly_def updateModelPos_def
        models_at_def slice_def batchSize_def countPos_def Let_def l
        Map_has_def Map_get_def List.map_filter_simps initialState_def)
qed

subsection \<open>The words recorded for a paragraph\<close>

text \<open>
  Claim C8.  In a state with no active model or with an active model of the list, a
  submission returns; the highlighted words grow by a list of added words, which are
  distinct and were not highlighted before; the paragraph record appended (there is one
  exactly when a word was added) has these added words as its words, and no other
  record changes.  For a paragraph that is not blank and an active model, the added
  words are the candidate words that were not highlighted.
\<close>

theorem paragraph_words_are_added_words:
  assumes "activeModelIndex s = - 1 \<or> models_at (models s) (activeModelIndex s) \<noteq> None"
  shows "\<exists>s' tr added. handleParagraphSubmit dict sched pid s = Inr (s', tr) \<and>
           highlightedWords s' = highlightedWords s @ added \<and>
           distinct added \<and> set added \<inter> set (highlightedWords s) = {} \<and>
           savedParagraphs s' = savedParagraphs s @
             (if added = [] then []
              else [\<lparr>para_id = pid, para_text = trim (paragraphInput s), para_words = added\<rparr>]) \<and>
           (\<forall>m. trim (paragraphInput s) \<noteq> [] \<and>
                models_at (models s) (activeModelIndex s) = Some m \<longrightarrow>
              added = filter (\<lambda>w. w \<notin> set (highlightedWords s))
                        (candidateWords (embeddings m) (paragraphInput s)))"
proof -
  consider (blank) "trim (paragraphInput s) = []"
    | (none) "trim (paragraphInput s) \<noteq> []" "activeModelIndex s = - 1"
    | (model) m where "trim (paragraphInput s) \<noteq> []"
        "models_at (models s) (activeModelIndex s) = Some m"
    using assms by auto
  then show ?thesis
  proof cases
    case blank
    then have "handleParagraphSubmit dict sched pid s = Inr (s, [])"
      by (simp add: handleParagraphSubmit_def)
    with blank show ?thesis
      by (intro exI [of _ s] exI [of _ "[]"]) simp
  next
    case none
    then have "handleParagraphSubmit dict sched pid s =
        Inr (s\<lparr>error := NoActiveModel, success := NoNotice\<rparr>, [])"
      by (simp add: handleParagraphSubmit_def)
    moreover from none have "models_at (models s) (activeModelIndex s) = None"
      by (simp add: models_at_def)
    ultimately show ?thesis
      by (intro exI [of _ "s\<lparr>error := NoActiveModel, success := NoNotice\<rparr>"]
          exI [of _ "[]"]) simp
  next
    case model
    let ?added = "filter (\<lambda>w. w \<notin> set (highlightedWords s))
                        (candidateWords (embeddings m) (paragraphInput s))"
    from handleParagraphSubmit_result [OF model refl refl, of dict sched pid]
    obtain s' tr where r: "handleParagraphSubmit dict sched pid s = Inr (s', tr)"
      and h: "highlightedWords s' = highlightedWords s @ ?added"
      and p: "savedParagraphs s' = savedParagraphs s @
           (if ?added = [] then []
            else [\<lparr>para_id = pid, para_text = trim (paragraphInput s), para_words = ?added\<rparr>])"
      by blast
    have d: "distinct ?added" by (simp add: candidateWords_distinct)
    have i: "set ?added \<inter> set (highlightedWords s) = {}" by auto
    from r h p d i model(2) show ?thesis
      by (intro exI [of _ s'] exI [of _ tr] exI [of _ ?added]) simp
  qed
qed

text \<open>The word \<open>the\<close> is highlighted already: \<open>quick\<close> and \<open>fox\<close> are added and recorded.\<close>

theorem paragraph_words_are_added_words_witness:
  "\<exists>s' tr. handleParagraphSubmit (\<lambda>w. Rejected) (\<lambda>i n. n) ''para-1''
        (initialState\<lparr>models := [\<lparr>model_name = ''m'', embeddings =
            map (\<lambda>w. (w, \<lparr>we_word = w, we_x = Finite 0, we_y = Finite 0, we_pos = None\<rparr>))
              [''the'', ''quick'', ''brown'', ''fox'', ''jumps'']\<rparr>],
           activeModelIndex := 0, highlightedWords := [''the''],
           paragraphInput := ''The quick fox''\<rparr>) = Inr (s', tr) \<and>
      highlightedWords s' = [''the'', ''quick'', ''fox''] \<and>
      savedParagraphs s' =
        [\<lparr>para_id = ''para-1'', para_text = ''The quick fox'',
          para_words = [''quick'', ''fox'']\<rparr>]"
proof -
  let ?M = "\<lparr>model_name = ''m'', embeddings =
        map (\<lambda>w. (w, \<lparr>we_word = w, we_x = Finite 0, we_y = Finite 0, we_pos = None\<rparr>))
          [''the'', ''quick'', ''brown'', ''fox'', ''jumps'']\<rparr>"
  let ?S = "initialState\<lparr>models := [?M], activeModelIndex := 0, highlightedWords := [''the''],
           paragraphInput := ''The quick fox''\<rparr>"
  have p: "paragraphInput ?S = ''The quick fox''" "highlightedWords ?S = [''the'']"
    "savedParagraphs ?S = []"
    by (simp_all add: initialState_def)
  have tr: "trim ''The quick fox'' = ''The quick fox''"
    by (simp add: string_eval)
  have v: "models_at (models ?S) (activeModelIndex ?S) = Some ?M"
    by (simp add: models_at_def)
  have c: "filter (\<lambda>w. w \<notin> set [''the''])
      (candidateWords (embeddings ?M) ''The quick fox'') = [''quick'', ''fox'']"
    by (simp add: paragraph_eval string_eval)
  have v': "activeModelIndex ?S = - 1 \<or> models_at (models ?S) (activeModelIndex ?S) \<noteq> None"
    using v by (intro disjI2) (simp only:, simp)
  from paragraph_words_are_added_words [OF v', of "\<lambda>w. Rejected" "\<lambda>i n. n" "''para-1''", unfolded p tr]
  obtain s' tr added where
    h: "handleParagraphSubmit (\<lambda>w. Rejected) (\<lambda>i n. n) ''para-1'' ?S = Inr (s', tr)"
    and hw: "highlightedWords s' = [''the''] @ added"
    and sp: "savedParagraphs s' = [] @
             (if added = [] then []
              else [\<lparr>para_id = ''para-1'', para_text = ''The quick fox'', para_words = added\<rparr>])"
    and a: "\<forall>m. ''The quick fox'' \<noteq> [] \<and>
                models_at (models ?S) (activeModelIndex ?S) = Some m \<longrightarrow>
              added = filter (\<lambda>w. w \<notin> set [''the''])
                        (candidateWords (embeddings m) ''The quick fox'')"
    by blast
  from a v have "added = filter (\<lambda>w. w \<notin> set [''the''])
                        (candidateWords (embeddings ?M) ''The quick fox'')"
    by blast
  then have added: "added = [''quick'', ''fox'']" by (simp only: c)
  from hw have 1: "highlightedWords s' = [''the'', ''quick'', ''fox'']" by (simp add: added)
  from sp have 2: "savedParagraphs s' =
        [\<lparr>para_id = ''para-1'', para_text = ''The quick fox'',
          para_words = [''quick'', ''fox'']\<rparr>]" by (simp add: added)
  from h 1 2 show ?thesis by blast
qed

end
